theory Spec2Isabelle
  imports Complex_Main
begin

text \<open>
  The canvas engine of the breadcrumb plugin, embedded from its source: the link
  extractor, the reverse reference index, the navigation path resolver, the text of a
  card and its measurement, and the three operations on a canvas (create, sync, group
  adjustment). The functions are those of the version of the source that synthesizes a
  group around each card; the sync of \<^verbatim>\<open>src/main.ts\<close>, which also resizes the card, stands
  beside it. A function of the source that reads or writes the vault takes the world
  and returns the new one; the host application is a record of the functions the
  plugin calls.
\<close>

section \<open>Strings\<close>

text \<open>
  A string of the plugin is modelled as a \<^typ>\<open>string\<close>, one \<^typ>\<open>char\<close> per code unit,
  so the development covers code units below 256. On that alphabet the white space
  class of a regular expression (and of \<^verbatim>\<open>trim\<close>) is TAB, LF, VT, FF, CR, SPACE and
  NBSP, and the line terminators (which \<^verbatim>\<open>.\<close> refuses and which \<^verbatim>\<open>^\<close> and \<^verbatim>\<open>$\<close> look at
  under the \<^verbatim>\<open>m\<close> flag) are LF and CR.
\<close>

definition isLineTerminator :: "char \<Rightarrow> bool" where
  "isLineTerminator c = (c = CHR 0x0A \<or> c = CHR 0x0D)"

definition isSpace :: "char \<Rightarrow> bool" where
  "isSpace c = (c = CHR 0x09 \<or> c = CHR 0x0A \<or> c = CHR 0x0B \<or> c = CHR 0x0C \<or>
                c = CHR 0x0D \<or> c = CHR 0x20 \<or> c = CHR 0xA0)"

definition isDigit :: "char \<Rightarrow> bool" where
  "isDigit c = (c = CHR ''0'' \<or> c = CHR ''1'' \<or> c = CHR ''2'' \<or> c = CHR ''3'' \<or> c = CHR ''4'' \<or>
                c = CHR ''5'' \<or> c = CHR ''6'' \<or> c = CHR ''7'' \<or> c = CHR ''8'' \<or> c = CHR ''9'')"

text \<open>\<^verbatim>\<open>s.startsWith(t)\<close>\<close>

fun startsWith :: "string \<Rightarrow> string \<Rightarrow> bool" where
  "startsWith s [] = True"
| "startsWith [] (t # ts) = False"
| "startsWith (c # cs) (t # ts) = (c = t \<and> startsWith cs ts)"

text \<open>\<^verbatim>\<open>s.includes(t)\<close>: \<open>t\<close> occurs in \<open>s\<close> as a contiguous substring.\<close>

fun includesStr :: "string \<Rightarrow> string \<Rightarrow> bool" where
  "includesStr [] t = (t = [])"
| "includesStr (c # cs) t = (startsWith (c # cs) t \<or> includesStr cs t)"

text \<open>\<^verbatim>\<open>s.trimStart()\<close>, \<^verbatim>\<open>s.trim()\<close>\<close>

definition trimStart :: "string \<Rightarrow> string" where
  "trimStart s = dropWhile isSpace s"

definition trim :: "string \<Rightarrow> string" where
  "trim s = rev (dropWhile isSpace (rev (dropWhile isSpace s)))"

text \<open>\<^verbatim>\<open>s.split(c)[0]\<close>: the part of \<open>s\<close> before the first \<open>c\<close>, all of \<open>s\<close> when there is none.\<close>

definition splitFirst :: "char \<Rightarrow> string \<Rightarrow> string" where
  "splitFirst c s = takeWhile (\<lambda>d. d \<noteq> c) s"

text \<open>\<^verbatim>\<open>s.split(c).pop()\<close>: the part of \<open>s\<close> after the last \<open>c\<close>.\<close>

definition splitLast :: "char \<Rightarrow> string \<Rightarrow> string" where
  "splitLast c s = rev (takeWhile (\<lambda>d. d \<noteq> c) (rev s))"

text \<open>\<^verbatim>\<open>s.replace(/\.md$/, '')\<close>\<close>

definition stripMd :: "string \<Rightarrow> string" where
  "stripMd s = (if startsWith (rev s) ''dm.'' then rev (drop 3 (rev s)) else s)"

section \<open>Link extractor\<close>

text \<open>
  The lazy group of \<^verbatim>\<open>/\[\[(.*?)\]\]/\<close>, entered just after an opening \<^verbatim>\<open>[[\<close>:
  the capture ends at the first \<^verbatim>\<open>]]\<close>, and the attempt fails at a line terminator or
  at the end of the text. The result is the capture and the text after the match.
\<close>

fun lazyClose :: "string \<Rightarrow> (string \<times> string) option" where
  "lazyClose [] = None"
| "lazyClose (c # cs) =
     (if c = CHR '']'' \<and> startsWith cs '']'' then Some ([], tl cs)
      else if isLineTerminator c then None
      else (case lazyClose cs of
              None \<Rightarrow> None
            | Some (cap, rest) \<Rightarrow> Some (c # cap, rest)))"

lemma lazyClose_shorter: "lazyClose s = Some (cap, rest) \<Longrightarrow> length rest < length s"
proof (induction s arbitrary: cap rest)
  case Nil
  then show ?case by simp
next
  case (Cons c cs)
  show ?case
  proof (cases "c = CHR '']'' \<and> startsWith cs '']''")
    case True
    with Cons.prems have "rest = tl cs" by simp
    then show ?thesis by (cases cs) simp_all
  next
    case False
    with Cons.prems obtain cap' where "lazyClose cs = Some (cap', rest)"
      by (auto split: if_splits option.splits)
    from Cons.IH [OF this] show ?thesis by simp
  qed
qed

text \<open>
  \<^verbatim>\<open>text.matchAll(/\[\[(.*?)\]\]/g)\<close>: the first capture group of every match, leftmost
  first, the scan resuming after each match.
\<close>

function matchAllLinks :: "string \<Rightarrow> string list" where
  "matchAllLinks [] = []"
| "matchAllLinks (c # cs) =
     (if c = CHR ''['' \<and> startsWith cs ''[''
      then (case lazyClose (tl cs) of
              None \<Rightarrow> matchAllLinks cs
            | Some (cap, rest) \<Rightarrow> cap # matchAllLinks rest)
      else matchAllLinks cs)"
  by pat_completeness auto
termination
proof (relation "measure length")
  show "wf (measure length)" by simp
next
  fix c :: char and cs :: string
  show "(cs, c # cs) \<in> measure length" by simp
next
  fix c :: char and cs x2 cap rest
  assume "lazyClose (tl cs) = Some x2" and "(cap, rest) = x2"
  then have "length rest < length (tl cs)" using lazyClose_shorter by metis
  then show "(rest, c # cs) \<in> measure length" by (cases cs) simp_all
next
  fix c :: char and cs :: string
  show "(cs, c # cs) \<in> measure length" by simp
qed

text \<open>
  \<^verbatim>\<open>extractWikiLinks\<close>: a match contributes the part of its capture before the first
  \<^verbatim>\<open>|\<close>, unless the capture or that part is empty.
\<close>

definition linkTargetOf :: "string \<Rightarrow> string list" where
  "linkTargetOf cap =
     (if cap \<noteq> [] then (let linkTarget = splitFirst (CHR ''|'') cap
                         in if linkTarget \<noteq> [] then [linkTarget] else [])
      else [])"

definition extractWikiLinks :: "string \<Rightarrow> string list" where
  "extractWikiLinks txt = concat (map linkTargetOf (matchAllLinks txt))"

text \<open>
  \<^verbatim>\<open>item.match(/\[\[(.*?)\]\]/)\<close> without the \<^verbatim>\<open>g\<close> flag: the capture of the leftmost match.
\<close>

definition matchLink :: "string \<Rightarrow> string option" where
  "matchLink s = (case matchAllLinks s of [] \<Rightarrow> None | cap # _ \<Rightarrow> Some cap)"

section \<open>Data model\<close>

text \<open>
  A value the plugin does not interpret (\<^verbatim>\<open>unknown\<close>): frontmatter fields, the edges of a
  canvas, the extension fields of a node. Numbers are exact rationals: the model has no
  rounding, no overflow and no NaN.
\<close>

datatype json =
    JNull
  | JBool bool
  | JNum rat
  | JStr string
  | JArr "json list"
  | JObj "(string \<times> json) list"

text \<open>Truthiness of a value, as \<^verbatim>\<open>if (v)\<close> and \<^verbatim>\<open>filter(Boolean)\<close> test it.\<close>

fun truthy :: "json \<Rightarrow> bool" where
  "truthy JNull = False"
| "truthy (JBool b) = b"
| "truthy (JNum r) = (r \<noteq> 0)"
| "truthy (JStr s) = (s \<noteq> [])"
| "truthy (JArr xs) = True"
| "truthy (JObj kvs) = True"

text \<open>
  \<^verbatim>\<open>interface CanvasNode\<close>. The fields are prefixed with \<open>n_\<close>; an optional string field is
  \<open>None\<close> when it is absent or not a string (what \<^verbatim>\<open>typeof node.text === 'string'\<close> asks).
  \<open>n_other\<close> holds the fields of the index signature \<^verbatim>\<open>[key: string]: unknown\<close>.
\<close>

record CanvasNode =
  n_id :: string
  n_type :: string
  n_text :: "string option"
  n_file :: "string option"
  n_label :: "string option"
  n_x :: rat
  n_y :: rat
  n_width :: rat
  n_height :: rat
  n_filePath :: "string option"
  n_other :: "(string \<times> json) list"

text \<open>
  \<^verbatim>\<open>interface CanvasData\<close>: \<open>nodes\<close> is \<open>None\<close> when the document has no \<^verbatim>\<open>nodes\<close> array;
  \<open>d_other\<close> holds every other top-level field of the document.
\<close>

record CanvasData =
  nodes :: "CanvasNode list option"
  edges :: "json list option"
  d_other :: "(string \<times> json) list"

text \<open>\<^verbatim>\<open>TFile\<close> of the host, as far as the plugin reads it.\<close>

record TFile =
  path :: string
  basename :: string
  extension :: string

text \<open>\<^verbatim>\<open>getFileCache(file)\<close>: the metadata cache entry of a file and its frontmatter.\<close>

record CachedMetadata =
  frontmatter :: "(string \<rightharpoonup> json) option"

text \<open>
  The host application, as the plugin calls it: link resolution, the metadata cache, the
  files of the vault, and the layout engine that \<^verbatim>\<open>measureTextPrecisely\<close> questions
  (\<open>h1Width\<close>: the width of the rendered title on one line, when the text renders a
  title; \<open>contentRect\<close>: width and height of the rendered text at a forced width).
\<close>

record host =
  getFirstLinkpathDest :: "string \<Rightarrow> string \<Rightarrow> TFile option"
  getFileCache :: "TFile \<Rightarrow> CachedMetadata option"
  getFiles :: "TFile list"
  h1Width :: "string \<Rightarrow> rat option"
  contentRect :: "string \<Rightarrow> rat \<Rightarrow> rat \<times> rat"

text \<open>
  What a canvas file holds, seen through \<^verbatim>\<open>JSON.parse\<close>: text that does not parse, or a
  document. Writing \<^verbatim>\<open>JSON.stringify(canvasData)\<close> stores the document.
\<close>

datatype canvasContent = SyntaxError | Json CanvasData

datatype notice = CannotReadCanvas | GroupsAdjusted | NothingToAdjust | AdjustFailed

text \<open>
  The mutable world: \<open>canvases\<close> and \<open>markdown\<close> are the files \<^verbatim>\<open>vault.read\<close> can read (as
  parsed canvas content, and as the raw text of a note); \<open>modified\<close> logs the paths given
  to \<^verbatim>\<open>vault.modify\<close>; \<open>canvasIndex\<close> is the reverse index; \<open>console\<close> and \<open>notices\<close> log
  \<^verbatim>\<open>console.error\<close> and \<^verbatim>\<open>new Notice\<close>; \<open>random\<close> is the stream of identifiers that
  \<^verbatim>\<open>Math.random().toString(36).substring(2, 15)\<close> yields and \<open>drawn\<close> counts the draws.
\<close>

record world =
  canvases :: "string \<rightharpoonup> canvasContent"
  markdown :: "string \<rightharpoonup> string"
  modified :: "string list"
  canvasIndex :: "string \<rightharpoonup> string set"
  console :: "string list"
  notices :: "notice list"
  random :: "nat \<Rightarrow> string"
  drawn :: nat

section \<open>Reverse reference index\<close>

text \<open>The inner loop of \<^verbatim>\<open>indexSingleCanvas\<close> over the links of one text node.\<close>

fun addResolved :: "host \<Rightarrow> string \<Rightarrow> string list \<Rightarrow> string set \<Rightarrow> string set" where
  "addResolved h canvasPath [] referencedPaths = referencedPaths"
| "addResolved h canvasPath (linkText # links) referencedPaths =
     (case getFirstLinkpathDest h linkText canvasPath of
        None \<Rightarrow> addResolved h canvasPath links referencedPaths
      | Some resolvedFile \<Rightarrow>
          addResolved h canvasPath links (insert (path resolvedFile) referencedPaths))"

text \<open>The loop of \<^verbatim>\<open>indexSingleCanvas\<close> over the nodes.\<close>

fun indexNodes :: "host \<Rightarrow> string \<Rightarrow> CanvasNode list \<Rightarrow> string set \<Rightarrow> string set" where
  "indexNodes h canvasPath [] referencedPaths = referencedPaths"
| "indexNodes h canvasPath (node # ns) referencedPaths =
     (if n_type node = ''file'' \<and> n_file node \<noteq> None
      then indexNodes h canvasPath ns (insert (the (n_file node)) referencedPaths)
      else if n_type node = ''text'' \<and> n_text node \<noteq> None
      then indexNodes h canvasPath ns
             (addResolved h canvasPath (extractWikiLinks (the (n_text node))) referencedPaths)
      else indexNodes h canvasPath ns referencedPaths)"

definition indexFailureMessage :: "string \<Rightarrow> string" where
  "indexFailureMessage p = ''[BreadcrumbPlugin] Failed to index canvas: '' @ p"

text \<open>
  \<^verbatim>\<open>indexSingleCanvas\<close>. A failed read and a failed parse both land in the \<^verbatim>\<open>catch\<close>:
  the failure is written to the console and the entry of the canvas is deleted.
\<close>

definition indexSingleCanvas :: "host \<Rightarrow> TFile \<Rightarrow> world \<Rightarrow> world" where
  "indexSingleCanvas h file w =
     (case canvases w (path file) of
        Some (Json data) \<Rightarrow>
          w\<lparr>canvasIndex := (canvasIndex w)(path file \<mapsto>
               (case nodes data of
                  None \<Rightarrow> {}
                | Some ns \<Rightarrow> indexNodes h (path file) ns {}))\<rparr>
      | _ \<Rightarrow>
          w\<lparr>console := console w @ [indexFailureMessage (path file)],
            canvasIndex := (canvasIndex w)(path file := None)\<rparr>)"

section \<open>Navigation path resolver\<close>

text \<open>The \<^verbatim>\<open>map\<close> callback of \<^verbatim>\<open>parseLinks\<close>; \<open>None\<close> is its \<^verbatim>\<open>null\<close>.\<close>

fun parseLinkItem :: "json \<Rightarrow> string option" where
  "parseLinkItem (JStr item) =
     (case matchLink item of
        None \<Rightarrow> Some item
      | Some cap \<Rightarrow> if cap \<noteq> [] then Some (splitFirst (CHR ''|'') cap) else Some item)"
| "parseLinkItem v = None"

text \<open>\<^verbatim>\<open>filter(Boolean)\<close> on the mapped items: \<^verbatim>\<open>null\<close> and the empty string go.\<close>

fun filterBoolean :: "string option list \<Rightarrow> string list" where
  "filterBoolean [] = []"
| "filterBoolean (None # xs) = filterBoolean xs"
| "filterBoolean (Some s # xs) = (if s \<noteq> [] then s # filterBoolean xs else filterBoolean xs)"

text \<open>\<^verbatim>\<open>parseLinks(field)\<close>; \<open>None\<close> is an absent field.\<close>

definition parseLinks :: "json option \<Rightarrow> string list" where
  "parseLinks field =
     (case field of
        None \<Rightarrow> []
      | Some v \<Rightarrow>
          if \<not> truthy v then []
          else filterBoolean (map parseLinkItem (case v of JArr items \<Rightarrow> items | _ \<Rightarrow> [v])))"

definition resolveFile :: "host \<Rightarrow> string \<Rightarrow> TFile option" where
  "resolveFile h linkText = (if linkText = [] then None else getFirstLinkpathDest h linkText [])"

text \<open>\<^verbatim>\<open>cache?.frontmatter?.up\<close> and its like.\<close>

definition frontmatterField :: "host \<Rightarrow> TFile \<Rightarrow> string \<Rightarrow> json option" where
  "frontmatterField h file key =
     (case getFileCache h file of
        None \<Rightarrow> None
      | Some cache \<Rightarrow> (case frontmatter cache of None \<Rightarrow> None | Some fm \<Rightarrow> fm key))"

definition getParentFile :: "host \<Rightarrow> TFile \<Rightarrow> TFile option" where
  "getParentFile h file =
     (case parseLinks (frontmatterField h file ''up'') of
        [] \<Rightarrow> None
      | firstLink # _ \<Rightarrow> if firstLink \<noteq> [] then resolveFile h firstLink else None)"

text \<open>
  The \<^verbatim>\<open>while (curr)\<close> loop of \<^verbatim>\<open>getBreadcrumbPath\<close>, with its variables \<open>current\<close> (\<^verbatim>\<open>curr\<close>), \<open>seen\<close>
  and the list built by \<^verbatim>\<open>unshift\<close>. Not returning is the value \<open>None\<close>.
\<close>

partial_function (option) climb ::
  "host \<Rightarrow> TFile option \<Rightarrow> string set \<Rightarrow> TFile list \<Rightarrow> TFile list option" where
  "climb h current seen crumbs =
     (case current of
        None \<Rightarrow> Some crumbs
      | Some f \<Rightarrow>
          if path f \<in> seen then Some crumbs
          else climb h (getParentFile h f) (insert (path f) seen) (f # crumbs))"

definition getBreadcrumbPath :: "host \<Rightarrow> TFile \<Rightarrow> TFile list option" where
  "getBreadcrumbPath h currentFile = climb h (Some currentFile) {} []"

section \<open>Card text\<close>

text \<open>\<^verbatim>\<open>cleanName\<close>: \<^verbatim>\<open>text.replace(/^[\d.\-_]+\s+/, '')\<close>.\<close>

definition isNumbering :: "char \<Rightarrow> bool" where
  "isNumbering c = (isDigit c \<or> c = CHR ''.'' \<or> c = CHR ''-'' \<or> c = CHR ''_'')"

definition cleanName :: "string \<Rightarrow> string" where
  "cleanName txt =
     (let rest = dropWhile isNumbering txt
      in if takeWhile isNumbering txt \<noteq> [] \<and> takeWhile isSpace rest \<noteq> []
         then dropWhile isSpace rest else txt)"

text \<open>
  \<^verbatim>\<open>/^\s*description\s*[:\uFF1A]/im\<close> tried at one line start: white space, the word
  in any case, white space, a colon (the full-width colon of the source lies outside
  the alphabet of the model). The result is the text after the match (\<^verbatim>\<open>textAfter\<close>).
\<close>

definition descriptionWord :: "string \<Rightarrow> bool" where
  "descriptionWord s =
     list_all2 (\<lambda>c (l, u). c = l \<or> c = u) s (zip ''description'' ''DESCRIPTION'')"

definition labelAt :: "string \<Rightarrow> string option" where
  "labelAt s =
     (let r = dropWhile isSpace s
      in if descriptionWord (take 11 r)
         then (case dropWhile isSpace (drop 11 r) of
                 [] \<Rightarrow> None
               | c # textAfter \<Rightarrow> if c = CHR '':'' then Some textAfter else None)
         else None)"

text \<open>The leftmost match of that expression; the flag says whether the position starts a line.\<close>

fun findLabel :: "bool \<Rightarrow> string \<Rightarrow> string option" where
  "findLabel atLineStart [] = None"
| "findLabel atLineStart (c # cs) =
     (case (if atLineStart then labelAt (c # cs) else None) of
        Some textAfter \<Rightarrow> Some textAfter
      | None \<Rightarrow> findLabel (isLineTerminator c) cs)"

text \<open>\<^verbatim>\<open>^\s*$\<close> under the \<^verbatim>\<open>m\<close> flag, tried at a line start: white space up to a line end.\<close>

definition blankLine :: "string \<Rightarrow> bool" where
  "blankLine s = (dropWhile isSpace s = [] \<or> list_ex isLineTerminator (takeWhile isSpace s))"

text \<open>The index of the leftmost match of \<^verbatim>\<open>/(\n---|^\s*$|\n#)/m\<close>.\<close>

fun endIndex :: "bool \<Rightarrow> string \<Rightarrow> nat option" where
  "endIndex atLineStart [] = (if atLineStart then Some 0 else None)"
| "endIndex atLineStart (c # cs) =
     (if startsWith (c # cs) [CHR 0x0A, CHR ''-'', CHR ''-'', CHR ''-'']
         \<or> (atLineStart \<and> blankLine (c # cs))
         \<or> startsWith (c # cs) [CHR 0x0A, CHR ''#'']
      then Some 0
      else map_option Suc (endIndex (isLineTerminator c) cs))"

definition excerpt :: "string \<Rightarrow> string" where
  "excerpt textAfter =
     (case endIndex True textAfter of
        Some i \<Rightarrow> trim (take i textAfter)
      | None \<Rightarrow> trim textAfter)"

text \<open>The regular-expression fallback of \<^verbatim>\<open>extractNodeText\<close> on the text of the note.\<close>

definition scanDescription :: "string \<Rightarrow> string" where
  "scanDescription content =
     (case findLabel True content of
        None \<Rightarrow> []
      | Some textAfter \<Rightarrow>
          (let descContent = excerpt textAfter
           in if descContent = [] \<and> startsWith textAfter [CHR 0x0A]
              then excerpt (trimStart textAfter)
              else descContent))"

datatype error = ReadFailed string

text \<open>
  \<^verbatim>\<open>extractNodeText\<close>: the description of the frontmatter when it is a string, the scan
  of the note's text otherwise (reading the note may fail); then the heading that links
  to the note under its cleaned name.
\<close>

definition cardText :: "TFile \<Rightarrow> string \<Rightarrow> string" where
  "cardText file descContent =
     ''# [['' @ basename file @ ''|'' @ cleanName (basename file) @ '']]''
       @ [CHR 0x0A, CHR 0x0A] @ descContent"

definition extractNodeText :: "host \<Rightarrow> world \<Rightarrow> TFile \<Rightarrow> error + string" where
  "extractNodeText h w file =
     (case frontmatterField h file ''description'' of
        Some (JStr d) \<Rightarrow> Inr (cardText file d)
      | _ \<Rightarrow>
          (case markdown w (path file) of
             None \<Rightarrow> Inl (ReadFailed (path file))
           | Some content \<Rightarrow> Inr (cardText file (scanDescription content))))"

section \<open>Text measurement\<close>

definition CARD_MIN_WIDTH :: rat where "CARD_MIN_WIDTH = 260"
definition CARD_MAX_WIDTH :: rat where "CARD_MAX_WIDTH = 1200"

text \<open>
  The ten probes of \<^verbatim>\<open>measureTextPrecisely\<close>; \<open>bestDiff = None\<close> is its \<^verbatim>\<open>Infinity\<close>.
\<close>

fun probe :: "host \<Rightarrow> string \<Rightarrow> nat \<Rightarrow> rat \<Rightarrow> rat \<Rightarrow> rat \<Rightarrow> rat option \<Rightarrow> rat" where
  "probe h txt 0 low high bestWidth bestDiff = bestWidth"
| "probe h txt (Suc k) low high bestWidth bestDiff =
     (let mid = of_int \<lfloor>(low + high) / 2\<rfloor>;
          hgt = of_int \<lceil>snd (contentRect h txt mid)\<rceil>;
          diff = \<bar>mid - hgt\<bar>;
          better = (case bestDiff of None \<Rightarrow> True | Some d \<Rightarrow> diff < d)
      in probe h txt k
           (if mid < hgt then mid + 1 else low)
           (if mid < hgt then high else mid - 1)
           (if better then mid else bestWidth)
           (if better then Some diff else bestDiff))"

definition measureTextPrecisely :: "host \<Rightarrow> string \<Rightarrow> rat \<times> rat" where
  "measureTextPrecisely h txt =
     (let titleWidth = (case h1Width h txt of None \<Rightarrow> 0 | Some tw \<Rightarrow> of_int \<lceil>tw\<rceil> + 80);
          minW = max CARD_MIN_WIDTH titleWidth;
          maxW = max CARD_MAX_WIDTH (minW * 2);
          bestWidth = probe h txt 10 minW maxW minW None;
          finalRect = contentRect h txt bestWidth;
          finalWidth = of_int \<lceil>fst finalRect\<rceil> + 40;
          finalHeight = of_int \<lceil>snd finalRect\<rceil> + 50;
          squareSide = max finalWidth finalHeight
      in (squareSide, squareSide))"

section \<open>Card reconciliation engine\<close>

text \<open>\<^verbatim>\<open>vault.modify(canvasFile, JSON.stringify(canvasData, null, "\t"))\<close>\<close>

definition vaultModify :: "string \<Rightarrow> CanvasData \<Rightarrow> world \<Rightarrow> world" where
  "vaultModify p canvasData w =
     w\<lparr>canvases := (canvases w)(p \<mapsto> Json canvasData), modified := modified w @ [p]\<rparr>"

text \<open>The generated link prefix \<^verbatim>\<open>`[[${noteFile.basename}`\<close>.\<close>

definition targetLink :: "TFile \<Rightarrow> string" where
  "targetLink noteFile = ''[['' @ basename noteFile"

text \<open>
  \<^verbatim>\<open>!s\<close> for a string that may be missing (\<^verbatim>\<open>!targetNodeId\<close>, \<^verbatim>\<open>!group.label\<close>): it is
  missing or empty.
\<close>

definition falsyStr :: "string option \<Rightarrow> bool" where
  "falsyStr s = (case s of None \<Rightarrow> True | Some t \<Rightarrow> t = [])"

subsection \<open>Sync\<close>

text \<open>
  The first loop of \<^verbatim>\<open>syncNodeInCanvas\<close>: every text node that contains the link prefix
  gets the regenerated text when its own differs, and becomes the target. The result
  is the node list after the loop, \<^verbatim>\<open>updated\<close> and \<^verbatim>\<open>targetNode\<close>.
\<close>

fun syncTextNodes ::
  "string \<Rightarrow> string \<Rightarrow> CanvasNode list \<Rightarrow> bool \<Rightarrow> CanvasNode option
     \<Rightarrow> CanvasNode list \<times> bool \<times> CanvasNode option" where
  "syncTextNodes link textContent [] updated targetNode = ([], updated, targetNode)"
| "syncTextNodes link textContent (node # ns) updated targetNode =
     (if n_type node = ''text'' \<and> n_text node \<noteq> None \<and> includesStr (the (n_text node)) link
      then (let isContentDiff = (the (n_text node) \<noteq> textContent);
                node' = (if isContentDiff then node\<lparr>n_text := Some textContent\<rparr> else node);
                (ns', updated', targetNode') =
                   syncTextNodes link textContent ns (updated \<or> isContentDiff) (Some node')
            in (node' # ns', updated', targetNode'))
      else (let (ns', updated', targetNode') = syncTextNodes link textContent ns updated targetNode
            in (node # ns', updated', targetNode')))"

text \<open>The frame that \<^verbatim>\<open>syncNodeInCanvas\<close> and \<^verbatim>\<open>addToCanvas\<close> synthesize around a card.\<close>

definition newGroup :: "string \<Rightarrow> TFile \<Rightarrow> CanvasNode \<Rightarrow> CanvasNode" where
  "newGroup groupId noteFile target =
     \<lparr>n_id = groupId, n_type = ''group'', n_text = None, n_file = None,
      n_label = Some (basename noteFile),
      n_x = n_x target, n_y = n_y target, n_width = n_width target, n_height = n_height target,
      n_filePath = None, n_other = []\<rparr>"

text \<open>
  \<^verbatim>\<open>syncNodeInCanvas\<close> on the parsed node list, given the regenerated text and the
  identifier the random source would yield: the text loop, the fallback to a file node,
  the repair of a missing group. The result is the node list, \<^verbatim>\<open>updated\<close>, whether a
  group was made, and \<^verbatim>\<open>targetNodeId\<close>.
\<close>

definition syncNodes ::
  "TFile \<Rightarrow> string \<Rightarrow> string \<Rightarrow> CanvasNode list
     \<Rightarrow> CanvasNode list \<times> bool \<times> bool \<times> string option" where
  "syncNodes noteFile textContent groupId ns =
     (let (ns1, updated1, textNode) = syncTextNodes (targetLink noteFile) textContent ns False None;
          fileNode = (if falsyStr (map_option n_id textNode)
                      then find (\<lambda>node. n_type node = ''file'' \<and> n_file node = Some (path noteFile)) ns1
                      else None);
          targetNode = (case fileNode of Some node \<Rightarrow> Some node | None \<Rightarrow> textNode);
          targetNodeId = map_option n_id targetNode
      in case targetNode of
           None \<Rightarrow> (ns1, updated1, False, targetNodeId)
         | Some target \<Rightarrow>
             if list_ex (\<lambda>n. n_type n = ''group'' \<and> n_label n = Some (basename noteFile)) ns1
             then (ns1, updated1, False, targetNodeId)
             else (newGroup groupId noteFile target # ns1, True, True, targetNodeId))"

definition syncNodeInCanvas ::
  "host \<Rightarrow> TFile \<Rightarrow> TFile \<Rightarrow> world \<Rightarrow> (error + string option) \<times> world" where
  "syncNodeInCanvas h canvasFile noteFile w =
     (case canvases w (path canvasFile) of
        Some (Json canvasData) \<Rightarrow>
          (case nodes canvasData of
             None \<Rightarrow> (Inr None, w)
           | Some ns \<Rightarrow>
               (case extractNodeText h w noteFile of
                  Inl e \<Rightarrow> (Inl e, w)
                | Inr textContent \<Rightarrow>
                    (let (ns', updated, grouped, targetNodeId) =
                            syncNodes noteFile textContent (random w (drawn w)) ns;
                         w1 = (if grouped then w\<lparr>drawn := drawn w + 1\<rparr> else w)
                     in if updated
                        then (Inr targetNodeId,
                              vaultModify (path canvasFile) (canvasData\<lparr>nodes := Some ns'\<rparr>) w1)
                        else (Inr targetNodeId, w1))))
      | _ \<Rightarrow> (Inr None, w))"

text \<open>
  The size-syncing variant (\<^verbatim>\<open>syncNodeInCanvas\<close> of \<^verbatim>\<open>src/main.ts\<close>): a matching text node is
  rewritten when its text differs or when its size is more than 2 off the measured one;
  no group is made. Its heading has no alias, and its measurement is a parameter.
\<close>

fun syncTextNodes_main ::
  "string \<Rightarrow> string \<Rightarrow> rat \<times> rat \<Rightarrow> CanvasNode list \<Rightarrow> bool \<Rightarrow> string option
     \<Rightarrow> CanvasNode list \<times> bool \<times> string option" where
  "syncTextNodes_main link textContent measured [] updated targetNodeId = ([], updated, targetNodeId)"
| "syncTextNodes_main link textContent measured (node # ns) updated targetNodeId =
     (if n_type node = ''text'' \<and> n_text node \<noteq> None \<and> includesStr (the (n_text node)) link
      then (let isContentDiff = (the (n_text node) \<noteq> textContent);
                isSizeDiff = (\<bar>n_width node - fst measured\<bar> > 2 \<or> \<bar>n_height node - snd measured\<bar> > 2);
                node' = (if isContentDiff \<or> isSizeDiff
                         then node\<lparr>n_text := Some textContent, n_width := fst measured, n_height := snd measured\<rparr>
                         else node);
                (ns', updated', targetNodeId') =
                   syncTextNodes_main link textContent measured ns
                     (updated \<or> isContentDiff \<or> isSizeDiff) (Some (n_id node))
            in (node' # ns', updated', targetNodeId'))
      else (let (ns', updated', targetNodeId') =
                   syncTextNodes_main link textContent measured ns updated targetNodeId
            in (node # ns', updated', targetNodeId')))"

definition syncNodes_main ::
  "TFile \<Rightarrow> string \<Rightarrow> rat \<times> rat \<Rightarrow> CanvasNode list \<Rightarrow> CanvasNode list \<times> bool \<times> string option" where
  "syncNodes_main noteFile textContent measured ns =
     (let (ns1, updated, textNodeId) =
             syncTextNodes_main (targetLink noteFile) textContent measured ns False None;
          targetNodeId =
            (if falsyStr textNodeId
             then (case find (\<lambda>node. n_type node = ''file'' \<and> n_file node = Some (path noteFile)) ns1 of
                     Some node \<Rightarrow> Some (n_id node)
                   | None \<Rightarrow> textNodeId)
             else textNodeId)
      in (ns1, updated, targetNodeId))"

definition cardText_main :: "TFile \<Rightarrow> string \<Rightarrow> string" where
  "cardText_main file descContent =
     ''# [['' @ basename file @ '']]'' @ [CHR 0x0A, CHR 0x0A] @ descContent"

definition extractNodeText_main :: "host \<Rightarrow> world \<Rightarrow> TFile \<Rightarrow> error + string" where
  "extractNodeText_main h w file =
     (case frontmatterField h file ''description'' of
        Some (JStr d) \<Rightarrow> Inr (cardText_main file d)
      | _ \<Rightarrow>
          (case markdown w (path file) of
             None \<Rightarrow> Inl (ReadFailed (path file))
           | Some content \<Rightarrow> Inr (cardText_main file (scanDescription content))))"

definition syncNodeInCanvas_main ::
  "(string \<Rightarrow> rat \<times> rat) \<Rightarrow> host \<Rightarrow> TFile \<Rightarrow> TFile \<Rightarrow> world \<Rightarrow> (error + string option) \<times> world" where
  "syncNodeInCanvas_main measureText h canvasFile noteFile w =
     (case canvases w (path canvasFile) of
        Some (Json canvasData) \<Rightarrow>
          (case nodes canvasData of
             None \<Rightarrow> (Inr None, w)
           | Some ns \<Rightarrow>
               (case extractNodeText_main h w noteFile of
                  Inl e \<Rightarrow> (Inl e, w)
                | Inr textContent \<Rightarrow>
                    (let (ns', updated, targetNodeId) =
                            syncNodes_main noteFile textContent (measureText textContent) ns
                     in if updated
                        then (Inr targetNodeId,
                              vaultModify (path canvasFile) (canvasData\<lparr>nodes := Some ns'\<rparr>) w)
                        else (Inr targetNodeId, w))))
      | _ \<Rightarrow> (Inr None, w))"

subsection \<open>Create\<close>

text \<open>The lookup of \<^verbatim>\<open>addToCanvas\<close>: the first node that already stands for the note.\<close>

definition isCardOf :: "TFile \<Rightarrow> CanvasNode \<Rightarrow> bool" where
  "isCardOf noteFile node =
     ((n_type node = ''file'' \<and> n_file node = Some (path noteFile))
      \<or> (n_type node = ''text'' \<and> n_text node \<noteq> None
          \<and> includesStr (the (n_text node)) (targetLink noteFile)))"

text \<open>The \<^verbatim>\<open>forEach\<close> of the placement: \<^verbatim>\<open>maxX\<close> and the running sum kept in \<^verbatim>\<open>avgY\<close>.\<close>

fun placementLoop :: "CanvasNode list \<Rightarrow> rat \<Rightarrow> rat \<Rightarrow> rat \<times> rat" where
  "placementLoop [] maxX avgY = (maxX, avgY)"
| "placementLoop (n # ns) maxX avgY =
     placementLoop ns (if n_x n + n_width n > maxX then n_x n + n_width n else maxX) (avgY + n_y n)"

definition placement :: "CanvasNode list \<Rightarrow> rat \<times> rat" where
  "placement ns =
     (if length ns > 0
      then (let (maxX, avgY) = placementLoop ns 0 0 in (maxX, avgY / of_nat (length ns)))
      else (-400, -200))"

definition newCard :: "string \<Rightarrow> string \<Rightarrow> rat \<times> rat \<Rightarrow> rat \<times> rat \<Rightarrow> CanvasNode" where
  "newCard newNodeId textContent place measured =
     \<lparr>n_id = newNodeId, n_type = ''text'', n_text = Some textContent, n_file = None,
      n_label = None,
      n_x = fst place + 100, n_y = snd place, n_width = fst measured, n_height = snd measured,
      n_filePath = None, n_other = []\<rparr>"

definition addToCanvas ::
  "host \<Rightarrow> TFile \<Rightarrow> TFile \<Rightarrow> world \<Rightarrow> (error + string option) \<times> world" where
  "addToCanvas h canvasFile noteFile w =
     (case canvases w (path canvasFile) of
        Some (Json canvasData) \<Rightarrow>
          (let ns = (case nodes canvasData of None \<Rightarrow> [] | Some ns \<Rightarrow> ns)
           in case find (isCardOf noteFile) ns of
                Some node \<Rightarrow> (Inr (Some (n_id node)), w)
              | None \<Rightarrow>
                  (case extractNodeText h w noteFile of
                     Inl e \<Rightarrow> (Inl e, w)
                   | Inr textContent \<Rightarrow>
                       (let measured = measureTextPrecisely h textContent;
                            newNodeId = random w (drawn w);
                            newNode = newCard newNodeId textContent (placement ns) measured;
                            groupId = random w (drawn w + 1);
                            ns' = ns @ [newGroup groupId noteFile newNode] @ [newNode]
                        in (Inr (Some newNodeId),
                            vaultModify (path canvasFile) (canvasData\<lparr>nodes := Some ns'\<rparr>)
                              (w\<lparr>drawn := drawn w + 2\<rparr>)))))
      | _ \<Rightarrow> (Inr None, w\<lparr>notices := notices w @ [CannotReadCanvas]\<rparr>))"

subsection \<open>Group geometry adjustment\<close>

text \<open>The centre of \<open>n\<close> lies in the rectangle of the group \<open>grp\<close>.\<close>

definition centreInside :: "CanvasNode \<Rightarrow> CanvasNode \<Rightarrow> bool" where
  "centreInside grp n =
     (let cx = n_x n + n_width n / 2; cy = n_y n + n_height n / 2
      in cx \<ge> n_x grp \<and> cx \<le> n_x grp + n_width grp \<and>
         cy \<ge> n_y grp \<and> cy \<le> n_y grp + n_height grp)"

text \<open>The callback of \<^verbatim>\<open>canvasData.nodes.find\<close>: \<open>n\<close> is the card of the group labelled \<open>label\<close>.\<close>

definition isCardLabelled :: "string \<Rightarrow> CanvasNode \<Rightarrow> bool" where
  "isCardLabelled label n =
     (if n_type n = ''file'' \<and> n_file n \<noteq> None
      then stripMd (splitLast (CHR ''/'') (the (n_file n))) = label
      else if n_type n = ''text'' \<and> n_text n \<noteq> None
      then includesStr (the (n_text n)) (''[['' @ label @ '']]'')
           \<or> includesStr (the (n_text n)) (''[['' @ label @ ''|'')
           \<or> includesStr (the (n_text n)) (''# [['' @ label @ '']]'')
      else False)"

text \<open>
  One turn of the loop over the groups: \<open>allNodes\<close> is \<^verbatim>\<open>canvasData.nodes\<close> as it stands at
  that turn. The result is the group \<open>grp\<close> after the turn and whether it was changed.
\<close>

definition adjustGroup :: "CanvasNode list \<Rightarrow> CanvasNode list \<Rightarrow> CanvasNode \<Rightarrow> CanvasNode \<times> bool" where
  "adjustGroup nonGroups allNodes grp =
     (if length (filter (centreInside grp) nonGroups) > 1 then (grp, False)
      else if falsyStr (n_label grp) then (grp, False)
      else (case find (isCardLabelled (the (n_label grp))) allNodes of
              None \<Rightarrow> (grp, False)
            | Some targetNode \<Rightarrow>
                if n_x grp \<noteq> n_x targetNode \<or> n_y grp \<noteq> n_y targetNode \<or>
                   n_width grp \<noteq> n_width targetNode \<or> n_height grp \<noteq> n_height targetNode
                then (grp\<lparr>n_x := n_x targetNode, n_y := n_y targetNode,
                            n_width := n_width targetNode, n_height := n_height targetNode\<rparr>, True)
                else (grp, False)))"

text \<open>
  The loop over the groups, in the order of the node list: \<open>passed\<close> are the nodes already
  passed (the groups among them as the loop left them), so that \<open>passed @ n # rest\<close> is the
  node list the turn of \<open>n\<close> reads.
\<close>

fun adjustLoop ::
  "CanvasNode list \<Rightarrow> CanvasNode list \<Rightarrow> CanvasNode list \<Rightarrow> bool \<Rightarrow> CanvasNode list \<times> bool" where
  "adjustLoop nonGroups passed [] updated = (passed, updated)"
| "adjustLoop nonGroups passed (n # rest) updated =
     (if n_type n = ''group''
      then (let (n', changed) = adjustGroup nonGroups (passed @ n # rest) n
            in adjustLoop nonGroups (passed @ [n']) rest (updated \<or> changed))
      else adjustLoop nonGroups (passed @ [n]) rest updated)"

definition adjustNodes :: "CanvasNode list \<Rightarrow> CanvasNode list \<times> bool" where
  "adjustNodes ns = adjustLoop (filter (\<lambda>n. n_type n \<noteq> ''group'') ns) [] ns False"

definition adjustGroupsInCanvas :: "TFile \<Rightarrow> world \<Rightarrow> world" where
  "adjustGroupsInCanvas canvasFile w =
     (case canvases w (path canvasFile) of
        Some (Json canvasData) \<Rightarrow>
          (case nodes canvasData of
             None \<Rightarrow> w
           | Some ns \<Rightarrow>
               (let (ns', updated) = adjustNodes ns
                in if updated
                   then (vaultModify (path canvasFile) (canvasData\<lparr>nodes := Some ns'\<rparr>) w)
                          \<lparr>notices := notices w @ [GroupsAdjusted]\<rparr>
                   else w\<lparr>notices := notices w @ [NothingToAdjust]\<rparr>))
      | _ \<Rightarrow> w\<lparr>console := console w @ [''adjustGroupsInCanvas''],
               notices := notices w @ [AdjustFailed]\<rparr>)"

section \<open>Example vaults\<close>

text \<open>A canvas file, a note, and the notes \<open>A\<close> and \<open>B\<close> that name each other as parent.\<close>

definition boardFile :: TFile where
  "boardFile = \<lparr>path = ''board.canvas'', basename = ''board'', extension = ''canvas''\<rparr>"

definition noteFile0 :: TFile where
  "noteFile0 = \<lparr>path = ''note.md'', basename = ''note'', extension = ''md''\<rparr>"

definition targetFile :: TFile where
  "targetFile = \<lparr>path = ''Q.md'', basename = ''Q'', extension = ''md''\<rparr>"

definition fileA :: TFile where
  "fileA = \<lparr>path = ''A.md'', basename = ''A'', extension = ''md''\<rparr>"

definition fileB :: TFile where
  "fileB = \<lparr>path = ''B.md'', basename = ''B'', extension = ''md''\<rparr>"

text \<open>
  A host whose resolver knows the link targets \<open>A\<close>, \<open>B\<close>, \<open>note\<close> and \<open>Alias\<close> (the last is
  the file \<open>Q.md\<close>), whose cache gives \<open>A\<close> the parent \<open>B\<close>, \<open>B\<close> the parent \<open>A\<close> and
  the note the description \<open>Summary text\<close>, and whose layout renders every text 120 high
  at the width asked for, with a title 100 wide.
\<close>

definition exampleHost :: host where
  "exampleHost =
     \<lparr>getFirstLinkpathDest = (\<lambda>linkText sourcePath.
          if linkText = ''A'' then Some fileA
          else if linkText = ''B'' then Some fileB
          else if linkText = ''note'' then Some noteFile0
          else if linkText = ''Alias'' then Some targetFile
          else None),
      getFileCache = (\<lambda>f.
          if path f = ''A.md'' then Some \<lparr>frontmatter = Some [''up'' \<mapsto> JStr ''[[B]]'']\<rparr>
          else if path f = ''B.md'' then Some \<lparr>frontmatter = Some [''up'' \<mapsto> JStr ''[[A|a]]'']\<rparr>
          else if path f = ''note.md''
          then Some \<lparr>frontmatter = Some [''description'' \<mapsto> JStr ''Summary text'']\<rparr>
          else None),
      getFiles = [boardFile, noteFile0, targetFile, fileA, fileB],
      h1Width = (\<lambda>txt. Some 100),
      contentRect = (\<lambda>txt width. (width, 120))\<rparr>"

text \<open>A node with nothing but an identifier, a type and a rectangle.\<close>

definition plainNode :: "string \<Rightarrow> string \<Rightarrow> rat \<Rightarrow> rat \<Rightarrow> rat \<Rightarrow> rat \<Rightarrow> CanvasNode" where
  "plainNode i t x y width height =
     \<lparr>n_id = i, n_type = t, n_text = None, n_file = None, n_label = None,
      n_x = x, n_y = y, n_width = width, n_height = height,
      n_filePath = None, n_other = []\<rparr>"

text \<open>A world whose only canvas is \<open>board.canvas\<close> with the given content.\<close>

definition boardWorld :: "canvasContent \<Rightarrow> world" where
  "boardWorld content =
     \<lparr>canvases = [''board.canvas'' \<mapsto> content],
      markdown = [''note.md'' \<mapsto> ''body''],
      modified = [],
      canvasIndex = [''board.canvas'' \<mapsto> {''stale.md''}],
      console = [],
      notices = [],
      random = (\<lambda>k. if k = 0 then ''card0'' else ''frame1''),
      drawn = 0\<rparr>"

definition boardOf :: "CanvasNode list \<Rightarrow> canvasContent" where
  "boardOf ns = Json \<lparr>nodes = Some ns, edges = Some [JObj [(''id'', JStr ''e1'')]],
                       d_other = [(''version'', JNum 1)]\<rparr>"

text \<open>
  A canvas whose text node holds \<^verbatim>\<open>[[Alias|Display]]\<close> after a stray \<^verbatim>\<open>[[\<close>, beside a file
  node for a file named \<^verbatim>\<open>Alias|Display\<close>.
\<close>

definition strayLinkNodes :: "CanvasNode list" where
  "strayLinkNodes =
     [(plainNode ''t1'' ''text'' 0 0 100 100)\<lparr>n_text := Some ''[[x [[Alias|Display]]''\<rparr>,
      (plainNode ''f1'' ''file'' 200 0 100 100)\<lparr>n_file := Some ''Alias|Display''\<rparr>]"

text \<open>
  A canvas whose text node holds the link \<^verbatim>\<open>[[Alias|Dis]play]]\<close> after a heading with a link
  of its own and a task item, and before a link that does not resolve.
\<close>

definition aliasLinkText :: string where
  "aliasLinkText =
     (''# [[note|note]]'' @ [CHR 0x0A, CHR 0x0A] @ ''- [ ] see '')
       @ ''[['' @ ''Alias'' @ ''|'' @ ''Dis]play'' @ '']]'' @ '' and [[Nowhere]]''"

definition aliasLinkNodes :: "CanvasNode list" where
  "aliasLinkNodes = [(plainNode ''t1'' ''text'' 0 0 100 100)\<lparr>n_text := Some aliasLinkText\<rparr>]"

text \<open>A canvas whose only node lies left of the origin: its right edge is at -400.\<close>

definition leftNodes :: "CanvasNode list" where
  "leftNodes = [plainNode ''a'' ''text'' (-500) 40 100 100]"

text \<open>
  A canvas that holds the card of \<open>note.md\<close> with an outdated text and a field the plugin
  does not know, inside its group; and the same canvas with the text as it is regenerated.
\<close>

definition staleCardNodes :: "CanvasNode list" where
  "staleCardNodes =
     [(plainNode ''g1'' ''group'' 0 0 300 300)\<lparr>n_label := Some ''note''\<rparr>,
      (plainNode ''c1'' ''text'' 0 0 300 300)
        \<lparr>n_text := Some ''# [[note|note]] old'', n_other := [(''color'', JStr ''4'')]\<rparr>]"

definition freshCardNodes :: "CanvasNode list" where
  "freshCardNodes =
     [(plainNode ''g1'' ''group'' 0 0 300 300)\<lparr>n_label := Some ''note''\<rparr>,
      (plainNode ''c1'' ''text'' 0 0 300 300)
        \<lparr>n_text := Some (''# [[note|note]]'' @ [CHR 0x0A, CHR 0x0A] @ ''Summary text''),
         n_other := [(''color'', JStr ''4'')]\<rparr>]"

text \<open>
  A canvas with a loose group around the card of \<open>note.md\<close>, and a group labelled \<open>pair\<close>
  that holds the centres of two cards, one of them the card of a note \<open>pair\<close>.
\<close>

definition looseGroupNodes :: "CanvasNode list" where
  "looseGroupNodes =
     [(plainNode ''g1'' ''group'' (-20) (-20) 340 340)\<lparr>n_label := Some ''note'', n_other := [(''color'', JStr ''2'')]\<rparr>,
      (plainNode ''c1'' ''text'' 0 0 300 300)\<lparr>n_text := Some ''# [[note|note]]''\<rparr>,
      (plainNode ''g2'' ''group'' 1000 0 800 400)\<lparr>n_label := Some ''pair''\<rparr>,
      (plainNode ''c2'' ''text'' 1010 10 300 300)\<lparr>n_text := Some ''# [[pair]]''\<rparr>,
      (plainNode ''c3'' ''file'' 1400 10 300 300)\<lparr>n_file := Some ''notes/other.md''\<rparr>]"

text \<open>A canvas that holds \<open>note.md\<close> as a file node, with no group around it.\<close>

definition fileCardNodes :: "CanvasNode list" where
  "fileCardNodes = [(plainNode ''f1'' ''file'' 0 0 400 400)\<lparr>n_file := Some ''note.md''\<rparr>]"

section \<open>Notions used in the statements\<close>

text \<open>
  The lazy group, entered on this text, runs to the end of the text without finding
  \<^verbatim>\<open>]]\<close> and without meeting a line terminator: whether it closes depends on what follows.
\<close>

fun lazyRunsOut :: "string \<Rightarrow> bool" where
  "lazyRunsOut [] = True"
| "lazyRunsOut (c # cs) =
     (if c = CHR '']'' \<and> startsWith cs '']'' then False
      else if isLineTerminator c then False
      else lazyRunsOut cs)"

text \<open>
  The scan of \<^verbatim>\<open>matchAll\<close> over a text is settled at its end: every \<^verbatim>\<open>[[\<close> of the text is
  closed by a \<^verbatim>\<open>]]\<close> of the text or cut off by a line terminator of the text, and the
  text does not end with \<^verbatim>\<open>[\<close>. A link that follows such a text is then scanned from its
  own \<^verbatim>\<open>[[\<close>. Texts with complete links, with single brackets (a task item \<^verbatim>\<open>- [ ]\<close>) or with
  a \<^verbatim>\<open>[[\<close> left open on an earlier line are of this kind.
\<close>

function scanSettles :: "string \<Rightarrow> bool" where
  "scanSettles [] = True"
| "scanSettles (c # cs) =
     (if c = CHR ''['' \<and> startsWith cs ''[''
      then (case lazyClose (tl cs) of
              None \<Rightarrow> \<not> lazyRunsOut (tl cs) \<and> scanSettles cs
            | Some (cap, rest) \<Rightarrow> scanSettles rest)
      else if c = CHR ''['' \<and> cs = [] then False
      else scanSettles cs)"
  by pat_completeness auto
termination
proof (relation "measure length")
  show "wf (measure length)" by simp
next
  fix c :: char and cs :: string
  show "(cs, c # cs) \<in> measure length" by simp
next
  fix c :: char and cs x2 cap rest
  assume "lazyClose (tl cs) = Some x2" and "(cap, rest) = x2"
  then have "length rest < length (tl cs)" using lazyClose_shorter by metis
  then show "(rest, c # cs) \<in> measure length" by (cases cs) simp_all
next
  fix c :: char and cs :: string
  show "(cs, c # cs) \<in> measure length" by simp
qed

text \<open>The lazy group, entered on this text, finds \<^verbatim>\<open>]]\<close> before any line terminator.\<close>

definition closesInLine :: "string \<Rightarrow> bool" where
  "closesInLine s = (lazyClose s \<noteq> None)"

text \<open>Where a member of the index set comes from: a file node, or a resolved link of a text node.\<close>

definition fromFileNode :: "CanvasNode list \<Rightarrow> string \<Rightarrow> bool" where
  "fromFileNode ns x = (\<exists>n. n \<in> set ns \<and> n_type n = ''file'' \<and> n_file n = Some x)"

definition fromTextLink :: "host \<Rightarrow> string \<Rightarrow> CanvasNode list \<Rightarrow> string \<Rightarrow> bool" where
  "fromTextLink h p ns x =
     (\<exists>n txt t q. n \<in> set ns \<and> n_type n = ''text'' \<and> n_text n = Some txt \<and>
        t \<in> set (extractWikiLinks txt) \<and> CHR ''|'' \<notin> set t \<and>
        getFirstLinkpathDest h t p = Some q \<and> x = path q)"

text \<open>The resolver of the host returns files of the vault only, and the vault is a finite list.\<close>

definition resolvesInVault :: "host \<Rightarrow> bool" where
  "resolvesInVault h =
     (\<forall>linkText sourcePath f.
        getFirstLinkpathDest h linkText sourcePath = Some f \<longrightarrow> f \<in> set (getFiles h))"


text \<open>The node list of the canvas stored at a path (empty when there is none).\<close>

definition nodesAt :: "world \<Rightarrow> string \<Rightarrow> CanvasNode list" where
  "nodesAt w p =
     (case canvases w p of
        Some (Json canvasData) \<Rightarrow> (case nodes canvasData of Some ns \<Rightarrow> ns | None \<Rightarrow> [])
      | _ \<Rightarrow> [])"

text \<open>
  Two nodes that agree on every field but the text, and on every field but the
  rectangle: the identifier, the type, the file, the label and the fields the plugin
  does not know are the same.
\<close>

definition sameButText :: "CanvasNode \<Rightarrow> CanvasNode \<Rightarrow> bool" where
  "sameButText n n' = (n'\<lparr>n_text := n_text n\<rparr> = n)"

definition sameButGeometry :: "CanvasNode \<Rightarrow> CanvasNode \<Rightarrow> bool" where
  "sameButGeometry n n' =
     (n'\<lparr>n_x := n_x n, n_y := n_y n, n_width := n_width n, n_height := n_height n\<rparr> = n)"

text \<open>
  The nodes of the old document are all in the new one, in their order and related by
  \<open>rel\<close>, between the nodes that the operation has put in front of them and behind them.
\<close>

definition nodesKept ::
  "(CanvasNode \<Rightarrow> CanvasNode \<Rightarrow> bool) \<Rightarrow> CanvasNode list option \<Rightarrow> CanvasNode list option \<Rightarrow> bool" where
  "nodesKept rel old new =
     (case new of
        None \<Rightarrow> old = None
      | Some ns' \<Rightarrow>
          (\<exists>front kept back. ns' = front @ kept @ back \<and>
             list_all2 rel (case old of None \<Rightarrow> [] | Some ns \<Rightarrow> ns) kept))"

text \<open>
  The target of \<^verbatim>\<open>syncNodeInCanvas\<close> after its two loops, from the node list and the target of
  the text loop: the first file node of the note when the text loop left no identifier,
  the target of the text loop otherwise.
\<close>

definition syncTarget :: "TFile \<Rightarrow> CanvasNode list \<Rightarrow> CanvasNode option \<Rightarrow> CanvasNode option" where
  "syncTarget noteFile ns1 textNode =
     (case (if falsyStr (map_option n_id textNode)
            then find (\<lambda>node. n_type node = ''file'' \<and> n_file node = Some (path noteFile)) ns1
            else None) of
        Some node \<Rightarrow> Some node
      | None \<Rightarrow> textNode)"

section \<open>Properties of the link extractor\<close>

lemma matchAllLinks_skip: "CHR ''['' \<notin> set pre \<Longrightarrow> matchAllLinks (pre @ s) = matchAllLinks s"
  by (induction pre) auto

lemma lazyClose_plain:
  "CHR '']'' \<notin> set cap \<Longrightarrow> \<forall>c\<in>set cap. \<not> isLineTerminator c \<Longrightarrow>
   lazyClose (cap @ '']]'' @ rest) = Some (cap, rest)"
  by (induction cap) auto

lemma matchAllLinks_link:
  assumes "CHR ''['' \<notin> set pre" "CHR '']'' \<notin> set cap" "\<forall>c\<in>set cap. \<not> isLineTerminator c"
  shows "matchAllLinks (pre @ ''[['' @ cap @ '']]'' @ rest) = cap # matchAllLinks rest"
proof -
  have "matchAllLinks (pre @ ''[['' @ cap @ '']]'' @ rest) = matchAllLinks (''[['' @ cap @ '']]'' @ rest)"
    using assms(1) by (rule matchAllLinks_skip)
  also have "\<dots> = cap # matchAllLinks rest"
    using lazyClose_plain [OF assms(2,3), of rest] by simp
  finally show ?thesis .
qed

lemma extractWikiLinks_link:
  assumes "CHR ''['' \<notin> set pre" "CHR '']'' \<notin> set cap" "\<forall>c\<in>set cap. \<not> isLineTerminator c"
  shows "extractWikiLinks (pre @ ''[['' @ cap @ '']]'' @ rest) = linkTargetOf cap @ extractWikiLinks rest"
  using matchAllLinks_link [OF assms] by (simp add: extractWikiLinks_def)

lemma extractWikiLinks_no_bar: "t \<in> set (extractWikiLinks txt) \<Longrightarrow> CHR ''|'' \<notin> set t"
  by (auto simp: extractWikiLinks_def linkTargetOf_def Let_def splitFirst_def
           dest: set_takeWhileD split: if_splits)

lemma lazyClose_append_Some:
  "lazyClose x = Some (cap, rest) \<Longrightarrow> lazyClose (x @ s) = Some (cap, rest @ s)"
proof (induction x arbitrary: cap rest)
  case Nil
  then show ?case by simp
next
  case (Cons c cs)
  show ?case
  proof (cases "c = CHR '']'' \<and> startsWith cs '']''")
    case True
    then obtain cs' where cs: "cs = CHR '']'' # cs'" by (cases cs) auto
    with True Cons.prems show ?thesis by simp
  next
    case False
    with Cons.prems obtain cap' where sub: "lazyClose cs = Some (cap', rest)" and cap: "cap = c # cap'"
      and nolt: "\<not> isLineTerminator c"
      by (auto split: if_splits option.splits)
    from sub have "cs \<noteq> []" by auto
    then have "startsWith (cs @ s) '']'' = startsWith cs '']''" by (cases cs) simp_all
    with False nolt cap Cons.IH [OF sub] show ?thesis by simp
  qed
qed

lemma lazyClose_append_None:
  "lazyClose x = None \<Longrightarrow> \<not> lazyRunsOut x \<Longrightarrow> lazyClose (x @ s) = None"
proof (induction x)
  case Nil
  then show ?case by simp
next
  case (Cons c cs)
  show ?case
  proof (cases "c = CHR '']'' \<and> startsWith cs '']''")
    case True
    with Cons.prems show ?thesis by simp
  next
    case notclose: False
    show ?thesis
    proof (cases "isLineTerminator c")
      case True
      then have "c \<noteq> CHR '']''" by (auto simp: isLineTerminator_def)
      with True show ?thesis by simp
    next
      case False
      with notclose Cons.prems have sub: "lazyClose cs = None" "\<not> lazyRunsOut cs"
        by (auto split: option.splits)
      then have "cs \<noteq> []" by auto
      then have "startsWith (cs @ s) '']'' = startsWith cs '']''" by (cases cs) simp_all
      with notclose False Cons.IH [OF sub] show ?thesis by simp
    qed
  qed
qed

text \<open>After a settled text the scan goes on as if it started afresh.\<close>

lemma matchAllLinks_settled:
  "scanSettles pre \<Longrightarrow> matchAllLinks (pre @ s) = matchAllLinks pre @ matchAllLinks s"
proof (induction pre rule: scanSettles.induct)
  case 1
  show ?case by simp
next
  case (2 c cs)
  show ?case
  proof (cases "c = CHR ''['' \<and> startsWith cs ''[''")
    case True
    then obtain cs' where cs: "cs = CHR ''['' # cs'" by (cases cs) auto
    show ?thesis
    proof (cases "lazyClose (tl cs)")
      case None
      with True "2.prems" have cut: "\<not> lazyRunsOut (tl cs)" and settled: "scanSettles cs" by simp_all
      have "lazyClose (tl cs @ s) = None" using None cut by (rule lazyClose_append_None)
      moreover have "matchAllLinks (cs @ s) = matchAllLinks cs @ matchAllLinks s"
        using True None settled by (rule "2.IH"(1))
      ultimately show ?thesis using True None cs by simp
    next
      case (Some capRest)
      obtain cap rest where capRest: "capRest = (cap, rest)" by (cases capRest)
      with True Some "2.prems" have settled: "scanSettles rest" by simp
      have "lazyClose (tl cs @ s) = Some (cap, rest @ s)"
        using Some capRest by (simp add: lazyClose_append_Some)
      moreover have "matchAllLinks (rest @ s) = matchAllLinks rest @ matchAllLinks s"
        using True Some capRest [symmetric] settled by (rule "2.IH"(2))
      ultimately show ?thesis using True Some capRest cs by simp
    qed
  next
    case False
    with "2.prems" have notlast: "\<not> (c = CHR ''['' \<and> cs = [])" and settled: "scanSettles cs"
      by (auto split: if_splits)
    have "matchAllLinks (cs @ s) = matchAllLinks cs @ matchAllLinks s"
      using False notlast settled by (rule "2.IH"(3))
    moreover have "\<not> (c = CHR ''['' \<and> startsWith (cs @ s) ''['')"
      using False notlast by (cases cs) auto
    then have "matchAllLinks ((c # cs) @ s) = matchAllLinks (cs @ s)"
      by (simp only: append_Cons matchAllLinks.simps if_False)
    moreover have "matchAllLinks (c # cs) = matchAllLinks cs"
      using False by (simp only: matchAllLinks.simps if_False)
    ultimately show ?thesis by simp
  qed
qed

lemma scanSettles_no_bracket: "CHR ''['' \<notin> set pre \<Longrightarrow> scanSettles pre"
  by (induction pre) auto

text \<open>The lazy group passes over a text with neither \<^verbatim>\<open>]]\<close> nor a line terminator.\<close>

lemma lazyClose_through:
  assumes "\<not> includesStr a '']]''" "\<not> list_ex isLineTerminator a" "\<not> startsWith x '']''"
  shows "lazyClose (a @ x) = (case lazyClose x of None \<Rightarrow> None | Some (cap, rest) \<Rightarrow> Some (a @ cap, rest))"
  using assms(1,2)
proof (induction a)
  case Nil
  show ?case by (simp split: option.splits)
next
  case (Cons c a)
  have noclose: "\<not> (c = CHR '']'' \<and> startsWith (a @ x) '']'')"
  proof (cases a)
    case Nil
    with assms(3) show ?thesis by simp
  next
    case (Cons d a')
    with Cons.prems(1) show ?thesis by auto
  qed
  from Cons.prems have "\<not> includesStr a '']]''" "\<not> list_ex isLineTerminator a" "\<not> isLineTerminator c"
    by (auto split: if_splits)
  with noclose Cons.IH show ?case by (auto split: option.splits)
qed

text \<open>What the scan extracts from a link with an alias separator, once it has reached the link.\<close>

lemma extractWikiLinks_aliased:
  assumes "scanSettles pre" "alias \<noteq> []" "CHR ''|'' \<notin> set alias"
    and "\<not> includesStr alias '']]''" "\<not> list_ex isLineTerminator alias"
    and "closesInLine (display @ '']]'' @ rest)"
  shows "alias \<in> set (extractWikiLinks (pre @ ''[['' @ alias @ ''|'' @ display @ '']]'' @ rest))"
proof -
  from assms(6) obtain cap rest' where d: "lazyClose (display @ '']]'' @ rest) = Some (cap, rest')"
    by (auto simp: closesInLine_def)
  then have bar: "lazyClose (''|'' @ display @ '']]'' @ rest) = Some (CHR ''|'' # cap, rest')"
    by (simp add: isLineTerminator_def)
  have "lazyClose (alias @ ''|'' @ display @ '']]'' @ rest) = Some (alias @ CHR ''|'' # cap, rest')"
    using lazyClose_through [OF assms(4,5), of "''|'' @ display @ '']]'' @ rest"] bar by simp
  then have "matchAllLinks (''[['' @ alias @ ''|'' @ display @ '']]'' @ rest)
             = (alias @ CHR ''|'' # cap) # matchAllLinks rest'"
    by simp
  then have all: "matchAllLinks (pre @ ''[['' @ alias @ ''|'' @ display @ '']]'' @ rest)
             = matchAllLinks pre @ (alias @ CHR ''|'' # cap) # matchAllLinks rest'"
    using matchAllLinks_settled [OF assms(1)] by simp
  have "takeWhile (\<lambda>d. d \<noteq> CHR ''|'') alias = alias"
    using assms(3) by (auto simp: takeWhile_eq_all_conv)
  then have "splitFirst (CHR ''|'') (alias @ CHR ''|'' # cap) = alias"
    using assms(3) by (simp add: splitFirst_def takeWhile_tail)
  with assms(2) have "linkTargetOf (alias @ CHR ''|'' # cap) = [alias]"
    by (simp add: linkTargetOf_def)
  with all show ?thesis by (simp add: extractWikiLinks_def)
qed

text \<open>
  C10. \<^verbatim>\<open>extractWikiLinks\<close> never returns the empty string: it is no element of the
  result, whatever the text. An occurrence of \<^verbatim>\<open>[[]]\<close>, and an occurrence of \<^verbatim>\<open>[[|alias]]\<close>
  (an empty target before the separator), reached by the scan, contribute no element:
  the result is that of the text after the occurrence.
\<close>

theorem extractWikiLinks_never_empty:
  "[] \<notin> set (extractWikiLinks txt)
   \<and> (CHR ''['' \<notin> set pre \<longrightarrow>
        extractWikiLinks (pre @ ''[[]]'' @ rest) = extractWikiLinks rest)
   \<and> (CHR ''['' \<notin> set pre \<and> CHR '']'' \<notin> set alias \<and> (\<forall>c\<in>set alias. \<not> isLineTerminator c) \<longrightarrow>
        extractWikiLinks (pre @ ''[[|'' @ alias @ '']]'' @ rest) = extractWikiLinks rest)"
proof (intro conjI impI)
  show "[] \<notin> set (extractWikiLinks txt)"
    by (auto simp: extractWikiLinks_def linkTargetOf_def Let_def)
next
  assume "CHR ''['' \<notin> set pre"
  then have "extractWikiLinks (pre @ ''[['' @ [] @ '']]'' @ rest) = linkTargetOf [] @ extractWikiLinks rest"
    by (intro extractWikiLinks_link) simp_all
  then show "extractWikiLinks (pre @ ''[[]]'' @ rest) = extractWikiLinks rest"
    by (simp add: linkTargetOf_def)
next
  assume a: "CHR ''['' \<notin> set pre \<and> CHR '']'' \<notin> set alias \<and> (\<forall>c\<in>set alias. \<not> isLineTerminator c)"
  then have "extractWikiLinks (pre @ ''[['' @ (CHR ''|'' # alias) @ '']]'' @ rest)
             = linkTargetOf (CHR ''|'' # alias) @ extractWikiLinks rest"
    by (intro extractWikiLinks_link) (simp_all add: isLineTerminator_def)
  then show "extractWikiLinks (pre @ ''[[|'' @ alias @ '']]'' @ rest) = extractWikiLinks rest"
    by (simp add: linkTargetOf_def splitFirst_def)
qed

theorem extractWikiLinks_never_empty_witness:
  "CHR ''['' \<notin> set ''see '' \<and> CHR '']'' \<notin> set ''alias''
   \<and> \<not> list_ex isLineTerminator ''alias''
   \<and> extractWikiLinks (''see '' @ ''[[]]'' @ '' and [[a]]'') = [''a'']
   \<and> extractWikiLinks (''see '' @ ''[[|'' @ ''alias'' @ '']]'' @ '' and [[a]]'') = [''a'']
   \<and> extractWikiLinks ''[[]]'' = [] \<and> extractWikiLinks ''[[|alias]]'' = []"
  using extractWikiLinks_never_empty [of "''see ''" "''see ''" "'' and [[a]]''" "''alias''"]
        extractWikiLinks_never_empty [of "[]" "[]" "[]" "''alias''"]
  by (simp add: isLineTerminator_def extractWikiLinks_def linkTargetOf_def splitFirst_def)

section \<open>Properties of the reverse index\<close>

lemma addResolved_mono: "x \<in> acc \<Longrightarrow> x \<in> addResolved h p links acc"
  by (induction links arbitrary: acc) (auto split: option.splits)

lemma addResolved_in:
  "t \<in> set links \<Longrightarrow> getFirstLinkpathDest h t p = Some q \<Longrightarrow> path q \<in> addResolved h p links acc"
  by (induction links arbitrary: acc) (auto split: option.splits intro: addResolved_mono)

lemma addResolved_origin:
  "x \<in> addResolved h p links acc \<Longrightarrow>
   x \<in> acc \<or> (\<exists>t q. t \<in> set links \<and> getFirstLinkpathDest h t p = Some q \<and> x = path q)"
proof (induction links arbitrary: acc)
  case Nil
  then show ?case by simp
next
  case (Cons t links)
  show ?case
  proof (cases "getFirstLinkpathDest h t p")
    case None
    with Cons.prems have "x \<in> addResolved h p links acc" by simp
    from Cons.IH [OF this] show ?thesis by auto
  next
    case (Some q)
    with Cons.prems have "x \<in> addResolved h p links (insert (path q) acc)" by simp
    from Cons.IH [OF this] Some show ?thesis by auto
  qed
qed

lemma indexNodes_mono: "x \<in> acc \<Longrightarrow> x \<in> indexNodes h p ns acc"
  by (induction ns arbitrary: acc) (auto intro: addResolved_mono)

lemma indexNodes_text:
  assumes "node \<in> set ns" "n_type node = ''text''" "n_text node = Some txt"
    and "t \<in> set (extractWikiLinks txt)" "getFirstLinkpathDest h t p = Some q"
  shows "path q \<in> indexNodes h p ns acc"
  using assms(1)
proof (induction ns arbitrary: acc)
  case Nil
  then show ?case by simp
next
  case (Cons n ns)
  show ?case
  proof (cases "n = node")
    case True
    have "path q \<in> addResolved h p (extractWikiLinks txt) acc"
      using assms(4,5) by (rule addResolved_in)
    with True assms(2,3) show ?thesis by (simp add: indexNodes_mono)
  next
    case False
    with Cons.prems have "node \<in> set ns" by simp
    from Cons.IH [OF this] show ?thesis by simp
  qed
qed

lemma fromFileNode_Cons: "fromFileNode ns x \<Longrightarrow> fromFileNode (n # ns) x"
  unfolding fromFileNode_def by auto

lemma fromTextLink_Cons: "fromTextLink h p ns x \<Longrightarrow> fromTextLink h p (n # ns) x"
  unfolding fromTextLink_def by (metis list.set_intros(2))

lemma fromFileNode_head: "n_type n = ''file'' \<Longrightarrow> n_file n = Some x \<Longrightarrow> fromFileNode (n # ns) x"
  unfolding fromFileNode_def by auto

lemma indexNodes_origin:
  "x \<in> indexNodes h p ns acc \<Longrightarrow> x \<in> acc \<or> fromFileNode ns x \<or> fromTextLink h p ns x"
proof (induction ns arbitrary: acc)
  case Nil
  then show ?case by simp
next
  case (Cons n ns)
  consider (fileNode) "n_type n = ''file'' \<and> n_file n \<noteq> None"
    | (textNode) "\<not> (n_type n = ''file'' \<and> n_file n \<noteq> None)" "n_type n = ''text'' \<and> n_text n \<noteq> None"
    | (other) "\<not> (n_type n = ''file'' \<and> n_file n \<noteq> None)" "\<not> (n_type n = ''text'' \<and> n_text n \<noteq> None)"
    by blast
  then show ?case
  proof cases
    case fileNode
    with Cons.prems have "x \<in> indexNodes h p ns (insert (the (n_file n)) acc)" by simp
    from Cons.IH [OF this] fileNode show ?thesis
      using fromFileNode_Cons fromTextLink_Cons fromFileNode_head by fastforce
  next
    case textNode
    then obtain tx where ntext: "n_text n = Some tx" by auto
    with textNode Cons.prems have "x \<in> indexNodes h p ns (addResolved h p (extractWikiLinks tx) acc)"
      by simp
    from Cons.IH [OF this]
    consider "x \<in> addResolved h p (extractWikiLinks tx) acc" | "fromFileNode ns x" | "fromTextLink h p ns x"
      by blast
    then show ?thesis
    proof cases
      case 1
      from addResolved_origin [OF this] show ?thesis
      proof
        assume "x \<in> acc" then show ?thesis by simp
      next
        assume "\<exists>t q. t \<in> set (extractWikiLinks tx) \<and> getFirstLinkpathDest h t p = Some q \<and> x = path q"
        then obtain t q where "t \<in> set (extractWikiLinks tx)" "getFirstLinkpathDest h t p = Some q" "x = path q"
          by blast
        with textNode ntext extractWikiLinks_no_bar [of t tx] have "fromTextLink h p (n # ns) x"
          unfolding fromTextLink_def by (intro exI [of _ n] exI [of _ tx] exI [of _ t] exI [of _ q]) simp
        then show ?thesis by simp
      qed
    next
      case 2
      then show ?thesis by (simp add: fromFileNode_Cons)
    next
      case 3
      then show ?thesis by (simp add: fromTextLink_Cons)
    qed
  next
    case other
    with Cons.prems have "x \<in> indexNodes h p ns acc" by (auto split: if_splits)
    from Cons.IH [OF this] show ?thesis
      using fromFileNode_Cons fromTextLink_Cons by blast
  qed
qed

text \<open>
  C4, as amended. Let a text node of the canvas hold the link \<^verbatim>\<open>[[Alias|Display]]\<close> where
  the scan reaches it: the text before the link is settled (its own \<^verbatim>\<open>[[\<close> are closed or
  cut off by a line break, and it does not end with \<^verbatim>\<open>[\<close>; complete links, task items and
  headings may stand there), \<open>Alias\<close> is not empty and has no \<^verbatim>\<open>|\<close>, no \<^verbatim>\<open>]]\<close> and no line
  terminator, and \<open>Display\<close> has no line terminator before the closing \<^verbatim>\<open>]]\<close>. When \<open>Alias\<close>
  resolves from the path of the canvas to a file of path \<open>Q\<close>, the index set of the
  canvas after \<^verbatim>\<open>indexSingleCanvas\<close> contains \<open>Q\<close>; so does it contain the path of every file
  that any extracted target of any text node resolves to. Every member of the set is
  the path of a file node, or the path of the file that the resolver returned for an
  extracted target, and an extracted target has no \<^verbatim>\<open>|\<close>: a target that does not resolve
  adds nothing, and the set contains the string \<^verbatim>\<open>Alias|Display\<close> only when a file node or
  a resolved file bears that very path, never else.
\<close>

theorem indexSingleCanvas_text_link:
  assumes "canvases w (path file) = Some (Json canvasData)"
    and "nodes canvasData = Some ns"
    and "node \<in> set ns" "n_type node = ''text''"
    and "n_text node = Some (pre @ ''[['' @ alias @ ''|'' @ display @ '']]'' @ rest)"
    and "scanSettles pre"
    and "alias \<noteq> []" "CHR ''|'' \<notin> set alias"
    and "\<not> includesStr alias '']]''" "\<not> list_ex isLineTerminator alias"
    and "closesInLine (display @ '']]'')"
    and "getFirstLinkpathDest h alias (path file) = Some q"
  shows "\<exists>refs. canvasIndex (indexSingleCanvas h file w) (path file) = Some refs
           \<and> path q \<in> refs
           \<and> (\<forall>n txt t f. n \<in> set ns \<and> n_type n = ''text'' \<and> n_text n = Some txt
                 \<and> t \<in> set (extractWikiLinks txt)
                 \<and> getFirstLinkpathDest h t (path file) = Some f \<longrightarrow> path f \<in> refs)
           \<and> (\<forall>x. x \<in> refs \<longrightarrow> fromFileNode ns x \<or> fromTextLink h (path file) ns x)
           \<and> (\<not> fromFileNode ns (alias @ ''|'' @ display)
                \<and> (\<forall>t f. getFirstLinkpathDest h t (path file) = Some f \<longrightarrow>
                        path f \<noteq> alias @ ''|'' @ display)
                \<longrightarrow> alias @ ''|'' @ display \<notin> refs)"
proof -
  let ?txt = "pre @ ''[['' @ alias @ ''|'' @ display @ '']]'' @ rest"
  let ?refs = "indexNodes h (path file) ns {}"
  from assms(11) obtain cap rest' where "lazyClose (display @ '']]'') = Some (cap, rest')"
    by (auto simp: closesInLine_def)
  then have "lazyClose ((display @ '']]'') @ rest) = Some (cap, rest' @ rest)"
    by (rule lazyClose_append_Some)
  then have closes: "closesInLine (display @ '']]'' @ rest)"
    by (simp add: closesInLine_def)
  have "alias \<in> set (extractWikiLinks ?txt)"
    using assms(6,7,8,9,10) closes by (rule extractWikiLinks_aliased)
  then have q: "path q \<in> ?refs"
    using indexNodes_text [OF assms(3,4,5) _ assms(12)] by blast
  have every: "\<forall>n txt t f. n \<in> set ns \<and> n_type n = ''text'' \<and> n_text n = Some txt
                 \<and> t \<in> set (extractWikiLinks txt)
                 \<and> getFirstLinkpathDest h t (path file) = Some f \<longrightarrow> path f \<in> ?refs"
    using indexNodes_text by blast
  have origin: "\<forall>x. x \<in> ?refs \<longrightarrow> fromFileNode ns x \<or> fromTextLink h (path file) ns x"
    using indexNodes_origin [of _ h "path file" ns "{}"] by blast
  have never: "\<not> fromFileNode ns (alias @ ''|'' @ display)
                \<and> (\<forall>t f. getFirstLinkpathDest h t (path file) = Some f \<longrightarrow>
                        path f \<noteq> alias @ ''|'' @ display)
                \<longrightarrow> alias @ ''|'' @ display \<notin> ?refs"
  proof (intro impI notI)
    assume a: "\<not> fromFileNode ns (alias @ ''|'' @ display)
                \<and> (\<forall>t f. getFirstLinkpathDest h t (path file) = Some f \<longrightarrow>
                        path f \<noteq> alias @ ''|'' @ display)"
      and "alias @ ''|'' @ display \<in> ?refs"
    with origin have "fromTextLink h (path file) ns (alias @ ''|'' @ display)" by blast
    then obtain t f where "getFirstLinkpathDest h t (path file) = Some f"
      and "alias @ ''|'' @ display = path f"
      unfolding fromTextLink_def by blast
    moreover from a have "\<forall>t f. getFirstLinkpathDest h t (path file) = Some f \<longrightarrow>
                        path f \<noteq> alias @ ''|'' @ display" ..
    ultimately show False by metis
  qed
  have "canvasIndex (indexSingleCanvas h file w) (path file) = Some ?refs"
    using assms(1,2) by (simp add: indexSingleCanvas_def)
  with q every origin never show ?thesis by blast
qed

theorem indexSingleCanvas_text_link_witness:
  "n_text (hd aliasLinkNodes)
     = Some ((''# [[note|note]]'' @ [CHR 0x0A, CHR 0x0A] @ ''- [ ] see '')
              @ ''[['' @ ''Alias'' @ ''|'' @ ''Dis]play'' @ '']]'' @ '' and [[Nowhere]]'')
   \<and> scanSettles (''# [[note|note]]'' @ [CHR 0x0A, CHR 0x0A] @ ''- [ ] see '')
   \<and> closesInLine (''Dis]play'' @ '']]'')
   \<and> getFirstLinkpathDest exampleHost ''Alias'' (path boardFile) = Some targetFile
   \<and> getFirstLinkpathDest exampleHost ''Nowhere'' (path boardFile) = None
   \<and> canvasIndex (indexSingleCanvas exampleHost boardFile (boardWorld (boardOf aliasLinkNodes)))
         (path boardFile) = Some {''note.md'', ''Q.md''}"
proof -
  let ?w = "boardWorld (boardOf aliasLinkNodes)"
  let ?data = "\<lparr>nodes = Some aliasLinkNodes, edges = Some [JObj [(''id'', JStr ''e1'')]],
                d_other = [(''version'', JNum 1)]\<rparr>"
  let ?pre = "''# [[note|note]]'' @ [CHR 0x0A, CHR 0x0A] @ ''- [ ] see ''"
  have 1: "canvases ?w (path boardFile) = Some (Json ?data)"
    by (simp add: boardWorld_def boardOf_def boardFile_def)
  have 2: "nodes ?data = Some aliasLinkNodes" by simp
  have 3: "hd aliasLinkNodes \<in> set aliasLinkNodes" by (simp add: aliasLinkNodes_def)
  have 4: "n_type (hd aliasLinkNodes) = ''text''" by (simp add: aliasLinkNodes_def plainNode_def)
  have 5: "n_text (hd aliasLinkNodes)
           = Some (?pre @ ''[['' @ ''Alias'' @ ''|'' @ ''Dis]play'' @ '']]'' @ '' and [[Nowhere]]'')"
    by (simp add: aliasLinkNodes_def aliasLinkText_def plainNode_def)
  have 6: "scanSettles ?pre" by (simp add: isLineTerminator_def)
  have 7: "''Alias'' \<noteq> []" "CHR ''|'' \<notin> set ''Alias''" "\<not> includesStr ''Alias'' '']]''"
    "\<not> list_ex isLineTerminator ''Alias''"
    by (simp_all add: isLineTerminator_def)
  have 8: "closesInLine (''Dis]play'' @ '']]'')"
    by (simp add: closesInLine_def isLineTerminator_def)
  have 9: "getFirstLinkpathDest exampleHost ''Alias'' (path boardFile) = Some targetFile"
    by (simp add: exampleHost_def)
  have 10: "getFirstLinkpathDest exampleHost ''Nowhere'' (path boardFile) = None"
    by (simp add: exampleHost_def)
  have 11: "canvasIndex (indexSingleCanvas exampleHost boardFile ?w) (path boardFile)
            = Some {''note.md'', ''Q.md''}"
    using indexSingleCanvas_text_link [OF 1 2 3 4 5 6 7 8 9]
    by (simp add: indexSingleCanvas_def boardWorld_def boardOf_def boardFile_def aliasLinkNodes_def
          aliasLinkText_def plainNode_def extractWikiLinks_def linkTargetOf_def splitFirst_def
          isLineTerminator_def exampleHost_def targetFile_def noteFile0_def insert_commute)
  from 5 6 8 9 10 11 show ?thesis by blast
qed

text \<open>
  C4 as it is stated fails on this canvas: its text node contains \<^verbatim>\<open>[[Alias|Display]]\<close>
  and \<open>Alias\<close> resolves to \<open>Q.md\<close>, but the scan starts at the stray \<^verbatim>\<open>[[\<close> before the link
  and extracts \<^verbatim>\<open>x [[Alias\<close>, which does not resolve; and the file node contributes the
  string \<^verbatim>\<open>Alias|Display\<close>. The index set is \<open>{Alias|Display}\<close>, without \<open>Q.md\<close>.
\<close>

theorem indexSingleCanvas_text_link_counterexample:
  "n_type (hd strayLinkNodes) = ''text''
   \<and> includesStr (the (n_text (hd strayLinkNodes))) ''[[Alias|Display]]''
   \<and> getFirstLinkpathDest exampleHost ''Alias'' (path boardFile) = Some targetFile
   \<and> path targetFile = ''Q.md''
   \<and> canvasIndex (indexSingleCanvas exampleHost boardFile (boardWorld (boardOf strayLinkNodes)))
         (path boardFile) = Some {''Alias|Display''}
   \<and> ''Q.md'' \<notin> {''Alias|Display''}"
  by (simp add: indexSingleCanvas_def boardWorld_def boardOf_def boardFile_def strayLinkNodes_def
        plainNode_def extractWikiLinks_def linkTargetOf_def splitFirst_def isLineTerminator_def
        exampleHost_def targetFile_def)

text \<open>
  C8. When the content of a canvas file does not parse, \<^verbatim>\<open>indexSingleCanvas\<close> returns (it
  has no error result: nothing is raised to the caller) with the entry of that canvas
  deleted from the index, whatever it held before, with the failure written to the
  console, with every other entry of the index as it was, and with every file of the
  vault untouched: nothing is written.
\<close>

theorem indexSingleCanvas_parse_failure:
  assumes "canvases w (path file) = Some SyntaxError"
  shows "canvasIndex (indexSingleCanvas h file w) (path file) = None
         \<and> console (indexSingleCanvas h file w) = console w @ [indexFailureMessage (path file)]
         \<and> canvases (indexSingleCanvas h file w) = canvases w
         \<and> markdown (indexSingleCanvas h file w) = markdown w
         \<and> modified (indexSingleCanvas h file w) = modified w
         \<and> (\<forall>p. p \<noteq> path file \<longrightarrow>
               canvasIndex (indexSingleCanvas h file w) p = canvasIndex w p)"
  using assms by (simp add: indexSingleCanvas_def)

theorem indexSingleCanvas_parse_failure_witness:
  "canvases (boardWorld SyntaxError) (path boardFile) = Some SyntaxError
   \<and> canvasIndex (boardWorld SyntaxError) (path boardFile) = Some {''stale.md''}
   \<and> canvasIndex (indexSingleCanvas exampleHost boardFile (boardWorld SyntaxError)) (path boardFile) = None
   \<and> console (indexSingleCanvas exampleHost boardFile (boardWorld SyntaxError))
       = [''[BreadcrumbPlugin] Failed to index canvas: board.canvas'']
   \<and> canvases (indexSingleCanvas exampleHost boardFile (boardWorld SyntaxError))
       = canvases (boardWorld SyntaxError)
   \<and> modified (indexSingleCanvas exampleHost boardFile (boardWorld SyntaxError)) = []"
proof -
  have 1: "canvases (boardWorld SyntaxError) (path boardFile) = Some SyntaxError"
    by (simp add: boardWorld_def boardFile_def)
  from indexSingleCanvas_parse_failure [OF 1, of exampleHost] 1 show ?thesis
    by (simp add: boardWorld_def boardFile_def indexFailureMessage_def)
qed

section \<open>Properties of the navigation path resolver\<close>

lemma getParentFile_inVault:
  "resolvesInVault h \<Longrightarrow> getParentFile h f = Some p \<Longrightarrow> p \<in> set (getFiles h)"
  by (auto simp: resolvesInVault_def getParentFile_def resolveFile_def split: list.splits if_splits)

text \<open>Each turn of the loop adds an unseen path of the vault to \<open>seen\<close>, so the unseen paths run out.\<close>

lemma climb_returns:
  assumes "resolvesInVault h"
  shows "(\<forall>f. current = Some f \<longrightarrow> f \<in> set (getFiles h)) \<Longrightarrow>
         \<exists>r. climb h current seen crumbs = Some r"
proof (induction "card (path ` set (getFiles h) - seen)" arbitrary: current seen crumbs
       rule: less_induct)
  case less
  show ?case
  proof (cases current)
    case None
    then show ?thesis by (simp add: climb.simps)
  next
    case (Some f)
    show ?thesis
    proof (cases "path f \<in> seen")
      case True
      with Some show ?thesis by (simp add: climb.simps)
    next
      case False
      from Some less.prems have "f \<in> set (getFiles h)" by simp
      with False have "path f \<in> path ` set (getFiles h) - seen" by simp
      then have fewer: "card (path ` set (getFiles h) - insert (path f) seen)
                 < card (path ` set (getFiles h) - seen)"
        by (metis Diff_insert card_Diff1_less finite_Diff finite_imageI finite_set)
      have "\<forall>p. getParentFile h f = Some p \<longrightarrow> p \<in> set (getFiles h)"
        using assms getParentFile_inVault by blast
      from less.hyps [OF fewer this]
      obtain r where "climb h (getParentFile h f) (insert (path f) seen) (f # crumbs) = Some r"
        by blast
      with Some False show ?thesis by (subst climb.simps) simp
    qed
  qed
qed

lemma getBreadcrumbPath_returns:
  assumes "resolvesInVault h"
  shows "\<exists>r. getBreadcrumbPath h f = Some r"
proof -
  have "\<forall>p. getParentFile h f = Some p \<longrightarrow> p \<in> set (getFiles h)"
    using assms getParentFile_inVault by blast
  from climb_returns [OF assms this, of "{path f}" "[f]"]
  show ?thesis unfolding getBreadcrumbPath_def by (subst climb.simps) simp
qed

lemma getBreadcrumbPath_two_cycle:
  assumes "getParentFile h a = Some b" "getParentFile h b = Some a" "path a \<noteq> path b"
  shows "getBreadcrumbPath h a = Some [b, a]"
  using assms unfolding getBreadcrumbPath_def by (simp add: climb.simps)

text \<open>
  C9. \<^verbatim>\<open>getBreadcrumbPath\<close> returns for every note and every parent relation that the host
  can give, that is, whenever link resolution yields files of the vault; the loop ends
  at once on a file whose path it has seen; and when the parent of \<open>a\<close> is \<open>b\<close> and the
  parent of \<open>b\<close> is \<open>a\<close> (two files, of different paths), the result is exactly \<open>[b, a]\<close>,
  the starting note last.
\<close>

theorem getBreadcrumbPath_cycle_safe:
  "(resolvesInVault h \<longrightarrow> (\<exists>r. getBreadcrumbPath h f = Some r))
   \<and> (path f \<in> seen \<longrightarrow> climb h (Some f) seen crumbs = Some crumbs)
   \<and> (getParentFile h a = Some b \<and> getParentFile h b = Some a \<and> path a \<noteq> path b \<longrightarrow>
        getBreadcrumbPath h a = Some [b, a])"
proof (intro conjI impI)
  assume "resolvesInVault h"
  then show "\<exists>r. getBreadcrumbPath h f = Some r" by (rule getBreadcrumbPath_returns)
next
  assume "path f \<in> seen"
  then show "climb h (Some f) seen crumbs = Some crumbs" by (simp add: climb.simps)
next
  assume "getParentFile h a = Some b \<and> getParentFile h b = Some a \<and> path a \<noteq> path b"
  then show "getBreadcrumbPath h a = Some [b, a]" by (simp add: getBreadcrumbPath_two_cycle)
qed

theorem getBreadcrumbPath_cycle_safe_witness:
  "resolvesInVault exampleHost
   \<and> getParentFile exampleHost fileA = Some fileB
   \<and> getParentFile exampleHost fileB = Some fileA
   \<and> path fileA \<noteq> path fileB
   \<and> path fileA \<in> {path fileA}
   \<and> climb exampleHost (Some fileA) {path fileA} [fileB] = Some [fileB]
   \<and> getBreadcrumbPath exampleHost fileA = Some [fileB, fileA]"
proof -
  have 1: "resolvesInVault exampleHost"
    by (simp add: resolvesInVault_def exampleHost_def)
  have 2: "getParentFile exampleHost fileA = Some fileB"
    by (simp add: getParentFile_def frontmatterField_def parseLinks_def matchLink_def
          splitFirst_def resolveFile_def isLineTerminator_def exampleHost_def fileA_def fileB_def)
  have 3: "getParentFile exampleHost fileB = Some fileA"
    by (simp add: getParentFile_def frontmatterField_def parseLinks_def matchLink_def
          splitFirst_def resolveFile_def isLineTerminator_def exampleHost_def fileA_def fileB_def)
  have 4: "path fileA \<noteq> path fileB" by (simp add: fileA_def fileB_def)
  from getBreadcrumbPath_cycle_safe [of exampleHost fileA "{path fileA}" "[fileB]" fileA fileB]
    1 2 3 4
  show ?thesis by simp
qed

section \<open>Properties of create\<close>

lemma startsWith_append: "startsWith (t @ r) t"
  by (induction t) simp_all

lemma includesStr_append: "includesStr (p @ t @ r) t"
proof (induction p)
  case Nil
  show ?case by (cases "t @ r") (use startsWith_append [of t r] in auto)
next
  case (Cons c p)
  then show ?case by simp
qed

lemma cardText_has_link: "includesStr (cardText noteFile d) (targetLink noteFile)"
proof -
  have "cardText noteFile d
        = ''# '' @ (''[['' @ basename noteFile)
            @ (''|'' @ cleanName (basename noteFile) @ '']]'' @ [CHR 0x0A, CHR 0x0A] @ d)"
    by (simp add: cardText_def)
  then show ?thesis unfolding targetLink_def by (metis includesStr_append)
qed

lemma extractNodeText_has_link:
  "extractNodeText h w noteFile = Inr textContent \<Longrightarrow> includesStr textContent (targetLink noteFile)"
  by (auto simp: extractNodeText_def cardText_has_link split: option.splits json.splits)

lemma find_append_None: "find P xs = None \<Longrightarrow> find P (xs @ ys) = find P ys"
  by (induction xs) (auto split: if_splits)

text \<open>What the placement loop computes: the rightmost edge, but at least 0, and the sum of the \<open>y\<close>.\<close>

lemma placementLoop_eq:
  "placementLoop ns maxX avgY
   = (Max (insert maxX ((\<lambda>n. n_x n + n_width n) ` set ns)), avgY + sum_list (map n_y ns))"
proof (induction ns arbitrary: maxX avgY)
  case Nil
  show ?case by simp
next
  case (Cons n ns)
  let ?e = "n_x n + n_width n"
  let ?E = "(\<lambda>n. n_x n + n_width n) ` set ns"
  have fin: "finite ?E" by simp
  have "(if ?e > maxX then ?e else maxX) = max maxX ?e"
    by (auto simp: max_def)
  moreover have "Max (insert (max maxX ?e) ?E) = Max (insert maxX (insert ?e ?E))"
    using fin by (cases "?E = {}") (simp_all add: max.assoc)
  ultimately have "Max (insert (if ?e > maxX then ?e else maxX) ?E) = Max (insert maxX (insert ?e ?E))"
    by simp
  with Cons.IH show ?case by (simp add: add.assoc)
qed

lemma placement_nonempty:
  "ns \<noteq> [] \<Longrightarrow>
   placement ns = (Max (insert 0 ((\<lambda>n. n_x n + n_width n) ` set ns)),
                   sum_list (map n_y ns) / of_nat (length ns))"
  by (simp add: placement_def placementLoop_eq)

lemma cleanName_note: "cleanName ''note'' = ''note''"
  by (simp add: cleanName_def isNumbering_def isDigit_def)

lemma addToCanvas_creates:
  assumes "canvases w (path canvasFile) = Some (Json canvasData)"
    and "find (isCardOf noteFile) (case nodes canvasData of None \<Rightarrow> [] | Some ns \<Rightarrow> ns) = None"
    and "extractNodeText h w noteFile = Inr textContent"
  shows "addToCanvas h canvasFile noteFile w =
         (let ns = (case nodes canvasData of None \<Rightarrow> [] | Some ns \<Rightarrow> ns);
              newNode = newCard (random w (drawn w)) textContent (placement ns)
                          (measureTextPrecisely h textContent)
          in (Inr (Some (random w (drawn w))),
              vaultModify (path canvasFile)
                (canvasData\<lparr>nodes := Some (ns @ [newGroup (random w (drawn w + 1)) noteFile newNode, newNode])\<rparr>)
                (w\<lparr>drawn := drawn w + 2\<rparr>)))"
  using assms by (simp add: addToCanvas_def Let_def)

text \<open>
  C2, as amended. For a note of base name \<open>note\<close> whose description is \<open>Summary text\<close> and a
  canvas with no nodes, \<^verbatim>\<open>addToCanvas\<close> leaves exactly two nodes in the canvas: a group
  and, right after it, a text node, whose identifier it returns. The text is the
  heading \<^verbatim>\<open># [[note|note]]\<close>, an empty line and \<open>Summary text\<close>: it contains the aliased
  link \<^verbatim>\<open>[[note|note]]\<close> and \<open>Summary text\<close>, and it does not contain \<^verbatim>\<open>[[note]]\<close>. The text
  node is at \<open>(-300, -200)\<close> with the measured size; the group has the label \<open>note\<close> and
  the rectangle of the text node.
\<close>

theorem addToCanvas_empty_canvas:
  assumes "canvases w (path canvasFile) = Some (Json canvasData)"
    and "nodes canvasData = None \<or> nodes canvasData = Some []"
    and "basename noteFile = ''note''"
    and "frontmatterField h noteFile ''description'' = Some (JStr ''Summary text'')"
  shows "\<exists>grp crd.
           nodesAt (snd (addToCanvas h canvasFile noteFile w)) (path canvasFile) = [grp, crd]
         \<and> fst (addToCanvas h canvasFile noteFile w) = Inr (Some (n_id crd))
         \<and> n_type crd = ''text''
         \<and> n_text crd = Some (''# [[note|note]]'' @ [CHR 0x0A, CHR 0x0A] @ ''Summary text'')
         \<and> includesStr (the (n_text crd)) ''[[note|note]]''
         \<and> includesStr (the (n_text crd)) ''Summary text''
         \<and> \<not> includesStr (the (n_text crd)) ''[[note]]''
         \<and> n_x crd = -300 \<and> n_y crd = -200
         \<and> (n_width crd, n_height crd)
             = measureTextPrecisely h (''# [[note|note]]'' @ [CHR 0x0A, CHR 0x0A] @ ''Summary text'')
         \<and> n_type grp = ''group'' \<and> n_label grp = Some ''note''
         \<and> n_x grp = n_x crd \<and> n_y grp = n_y crd
         \<and> n_width grp = n_width crd \<and> n_height grp = n_height crd"
proof -
  let ?tc = "''# [[note|note]]'' @ [CHR 0x0A, CHR 0x0A] @ ''Summary text''"
  let ?ns = "case nodes canvasData of None \<Rightarrow> [] | Some ns \<Rightarrow> ns"
  let ?crd = "newCard (random w (drawn w)) ?tc (placement ?ns) (measureTextPrecisely h ?tc)"
  let ?grp = "newGroup (random w (drawn w + 1)) noteFile ?crd"
  have ns: "?ns = []" using assms(2) by auto
  have tc: "extractNodeText h w noteFile = Inr ?tc"
    using assms(3,4) by (simp add: extractNodeText_def cardText_def cleanName_note)
  have nofind: "find (isCardOf noteFile) ?ns = None" using ns by simp
  have run: "addToCanvas h canvasFile noteFile w =
        (Inr (Some (random w (drawn w))),
         vaultModify (path canvasFile) (canvasData\<lparr>nodes := Some [?grp, ?crd]\<rparr>)
           (w\<lparr>drawn := drawn w + 2\<rparr>))"
    using addToCanvas_creates [OF assms(1) nofind tc] ns by (simp add: Let_def)
  have "nodesAt (snd (addToCanvas h canvasFile noteFile w)) (path canvasFile) = [?grp, ?crd]"
    by (simp add: run nodesAt_def vaultModify_def)
  moreover have "fst (addToCanvas h canvasFile noteFile w) = Inr (Some (n_id ?crd))"
    by (simp add: run newCard_def)
  moreover have "n_type ?crd = ''text''" "n_text ?crd = Some ?tc"
    "n_x ?crd = -300" "n_y ?crd = -200"
    "(n_width ?crd, n_height ?crd) = measureTextPrecisely h ?tc"
    by (simp_all add: newCard_def ns placement_def)
  moreover have "includesStr ?tc ''[[note|note]]''" "includesStr ?tc ''Summary text''"
    "\<not> includesStr ?tc ''[[note]]''"
    by simp_all
  moreover have "n_type ?grp = ''group''" "n_label ?grp = Some ''note''"
    "n_x ?grp = n_x ?crd" "n_y ?grp = n_y ?crd"
    "n_width ?grp = n_width ?crd" "n_height ?grp = n_height ?crd"
    using assms(3) by (simp_all add: newGroup_def)
  ultimately show ?thesis
    by (intro exI [of _ ?grp] exI [of _ ?crd]) simp
qed

theorem addToCanvas_empty_canvas_witness:
  "canvases (boardWorld (boardOf [])) (path boardFile) = Some (boardOf [])
   \<and> basename noteFile0 = ''note''
   \<and> frontmatterField exampleHost noteFile0 ''description'' = Some (JStr ''Summary text'')
   \<and> map n_type (nodesAt (snd (addToCanvas exampleHost boardFile noteFile0 (boardWorld (boardOf []))))
                    (path boardFile)) = [''group'', ''text'']
   \<and> map n_x (nodesAt (snd (addToCanvas exampleHost boardFile noteFile0 (boardWorld (boardOf []))))
                 (path boardFile)) = [-300, -300]
   \<and> fst (addToCanvas exampleHost boardFile noteFile0 (boardWorld (boardOf []))) = Inr (Some ''card0'')"
proof -
  let ?data = "\<lparr>nodes = Some [], edges = Some [JObj [(''id'', JStr ''e1'')]],
                d_other = [(''version'', JNum 1)]\<rparr>"
  have 1: "canvases (boardWorld (boardOf [])) (path boardFile) = Some (Json ?data)"
    by (simp add: boardWorld_def boardOf_def boardFile_def)
  have 2: "nodes ?data = None \<or> nodes ?data = Some []" by simp
  have 3: "basename noteFile0 = ''note''" by (simp add: noteFile0_def)
  have 4: "frontmatterField exampleHost noteFile0 ''description'' = Some (JStr ''Summary text'')"
    by (simp add: frontmatterField_def exampleHost_def noteFile0_def)
  from addToCanvas_empty_canvas [OF 1 2 3 4]
  obtain grp crd where
    "nodesAt (snd (addToCanvas exampleHost boardFile noteFile0 (boardWorld (boardOf [])))) (path boardFile)
       = [grp, crd]"
    "fst (addToCanvas exampleHost boardFile noteFile0 (boardWorld (boardOf []))) = Inr (Some (n_id crd))"
    "n_type crd = ''text''" "n_x crd = -300" "n_type grp = ''group''" "n_x grp = n_x crd"
    by blast
  moreover have "fst (addToCanvas exampleHost boardFile noteFile0 (boardWorld (boardOf [])))
                 = Inr (Some ''card0'')"
    using 4 by (simp add: addToCanvas_def boardWorld_def boardOf_def boardFile_def
                  extractNodeText_def Let_def)
  ultimately show ?thesis using 1 3 4 by (simp add: boardOf_def)
qed

text \<open>
  C2 as it is stated fails: the text of the node that \<^verbatim>\<open>addToCanvas\<close> creates for \<open>note.md\<close>
  on the empty canvas is \<^verbatim>\<open># [[note|note]]\<close>, an empty line, \<open>Summary text\<close>, and the
  substring \<^verbatim>\<open>[[note]]\<close> does not occur in it.
\<close>

theorem addToCanvas_empty_canvas_counterexample:
  "map n_text (nodesAt (snd (addToCanvas exampleHost boardFile noteFile0 (boardWorld (boardOf []))))
                 (path boardFile))
     = [None, Some (''# [[note|note]]'' @ [CHR 0x0A, CHR 0x0A] @ ''Summary text'')]
   \<and> \<not> includesStr (''# [[note|note]]'' @ [CHR 0x0A, CHR 0x0A] @ ''Summary text'') ''[[note]]''"
  by (simp add: addToCanvas_def boardWorld_def boardOf_def boardFile_def extractNodeText_def
        frontmatterField_def exampleHost_def noteFile0_def cardText_def cleanName_note
        Let_def nodesAt_def vaultModify_def newCard_def newGroup_def)

text \<open>
  C3 at a canvas whose only node has its right edge at \<open>-400\<close>: \<^verbatim>\<open>maxX\<close> starts at \<open>0\<close> and
  the edge never exceeds it, so the new card is placed at \<open>x = 100\<close>, not at the right
  edge plus the gap, \<open>-300\<close>. The \<open>y\<close> of the card is the mean, \<open>40\<close>.
\<close>

theorem addToCanvas_placement_left_of_origin:
  "map (\<lambda>n. n_x n + n_width n) leftNodes = [-400]
   \<and> placement leftNodes = (0, 40)
   \<and> map n_x (nodesAt (snd (addToCanvas exampleHost boardFile noteFile0 (boardWorld (boardOf leftNodes))))
                 (path boardFile)) = [-500, 100, 100]
   \<and> map n_y (nodesAt (snd (addToCanvas exampleHost boardFile noteFile0 (boardWorld (boardOf leftNodes))))
                 (path boardFile)) = [40, 40, 40]"
  by (simp add: addToCanvas_def boardWorld_def boardOf_def boardFile_def extractNodeText_def
        frontmatterField_def exampleHost_def noteFile0_def cardText_def cleanName_note
        Let_def nodesAt_def vaultModify_def newCard_def newGroup_def leftNodes_def plainNode_def
        isCardOf_def placement_def)

section \<open>Properties of sync\<close>

lemma syncTextNodes_untouched:
  "\<forall>n\<in>set ns. \<not> (n_type n = ''text'' \<and> n_text n \<noteq> None \<and> includesStr (the (n_text n)) link) \<Longrightarrow>
   syncTextNodes link textContent ns updated targetNode = (ns, updated, targetNode)"
  by (induction ns arbitrary: updated targetNode) auto

lemma syncTextNodes_append:
  "syncTextNodes link textContent (xs @ ys) updated targetNode =
     (case syncTextNodes link textContent xs updated targetNode of
        (xs', updated', targetNode') \<Rightarrow>
          (case syncTextNodes link textContent ys updated' targetNode' of
             (ys', updated'', targetNode'') \<Rightarrow> (xs' @ ys', updated'', targetNode'')))"
  by (induction xs arbitrary: updated targetNode) (auto simp: Let_def split: prod.splits)

lemma isCardOf_newGroup: "\<not> isCardOf noteFile (newGroup groupId noteFile' target)"
  by (simp add: isCardOf_def newGroup_def)

lemma isCardOf_newCard:
  "includesStr textContent (targetLink noteFile) \<Longrightarrow>
   isCardOf noteFile (newCard newNodeId textContent place measured)"
  by (simp add: isCardOf_def newCard_def)

lemma extractNodeText_markdown:
  "markdown w' = markdown w \<Longrightarrow> extractNodeText h w' file = extractNodeText h w file"
  by (simp add: extractNodeText_def split: option.splits json.splits)

text \<open>Sync on the node list that create has just written finds the new card and changes nothing.\<close>

lemma syncNodes_after_create:
  assumes none: "find (isCardOf noteFile) ns = None"
    and link: "includesStr textContent (targetLink noteFile)"
    and crd_def: "crd = newCard newNodeId textContent place measured"
  shows "syncNodes noteFile textContent gid (ns @ [newGroup groupId noteFile crd, crd])
         = (ns @ [newGroup groupId noteFile crd, crd], False, False, Some newNodeId)"
proof -
  let ?grp = "newGroup groupId noteFile crd"
  from none have nocard: "\<forall>n\<in>set ns. \<not> isCardOf noteFile n"
    by (simp add: find_None_iff)
  then have "\<forall>n\<in>set ns. \<not> (n_type n = ''text'' \<and> n_text n \<noteq> None
                \<and> includesStr (the (n_text n)) (targetLink noteFile))"
    by (auto simp: isCardOf_def)
  then have 1: "syncTextNodes (targetLink noteFile) textContent ns False None = (ns, False, None)"
    by (rule syncTextNodes_untouched)
  have 2: "syncTextNodes (targetLink noteFile) textContent [?grp, crd] False None
           = ([?grp, crd], False, Some crd)"
    using link by (simp add: newGroup_def crd_def newCard_def Let_def)
  have loop: "syncTextNodes (targetLink noteFile) textContent (ns @ [?grp, crd]) False None
              = (ns @ [?grp, crd], False, Some crd)"
    by (simp only: syncTextNodes_append 1 2 prod.case)
  have nofile: "find (\<lambda>node. n_type node = ''file'' \<and> n_file node = Some (path noteFile))
                  (ns @ [?grp, crd]) = None"
    using nocard by (auto simp: find_None_iff isCardOf_def newGroup_def crd_def newCard_def)
  have grouped: "list_ex (\<lambda>n. n_type n = ''group'' \<and> n_label n = Some (basename noteFile))
                   (ns @ [?grp, crd])"
    by (simp add: newGroup_def)
  have ident: "n_id crd = newNodeId" by (simp add: crd_def newCard_def)
  show ?thesis
    unfolding syncNodes_def loop
    using nofile grouped ident by (simp add: Let_def)
qed

lemma sameButText_refl: "sameButText n n"
  by (simp add: sameButText_def)

lemma syncTextNodes_frame:
  "syncTextNodes link textContent ns updated targetNode = (ns', updated', targetNode') \<Longrightarrow>
   list_all2 sameButText ns ns'"
proof (induction ns arbitrary: updated targetNode ns' updated' targetNode')
  case Nil
  then show ?case by simp
next
  case (Cons node ns)
  show ?case
  proof (cases "n_type node = ''text'' \<and> n_text node \<noteq> None \<and> includesStr (the (n_text node)) link")
    case True
    let ?node' = "if the (n_text node) \<noteq> textContent then node\<lparr>n_text := Some textContent\<rparr> else node"
    obtain ms u t where rest:
      "syncTextNodes link textContent ns (updated \<or> the (n_text node) \<noteq> textContent) (Some ?node')
       = (ms, u, t)"
      by (metis prod_cases3)
    with True Cons.prems have "ns' = ?node' # ms" by (simp add: Let_def)
    moreover have "sameButText node ?node'" by (simp add: sameButText_def)
    moreover have "list_all2 sameButText ns ms" using rest by (rule Cons.IH)
    ultimately show ?thesis by simp
  next
    case False
    obtain ms u t where rest: "syncTextNodes link textContent ns updated targetNode = (ms, u, t)"
      by (metis prod_cases3)
    with False Cons.prems have "ns' = node # ms" by auto
    moreover have "list_all2 sameButText ns ms" using rest by (rule Cons.IH)
    ultimately show ?thesis by (simp add: sameButText_refl)
  qed
qed

lemma syncTextNodes_updated:
  "syncTextNodes link textContent ns updated targetNode = (ns', updated', targetNode') \<Longrightarrow>
   updated' = (updated \<or> ns' \<noteq> ns)"
proof (induction ns arbitrary: updated targetNode ns' updated' targetNode')
  case Nil
  then show ?case by auto
next
  case (Cons node ns)
  show ?case
  proof (cases "n_type node = ''text'' \<and> n_text node \<noteq> None \<and> includesStr (the (n_text node)) link")
    case True
    let ?diff = "the (n_text node) \<noteq> textContent"
    let ?node' = "if ?diff then node\<lparr>n_text := Some textContent\<rparr> else node"
    obtain ms u t where rest:
      "syncTextNodes link textContent ns (updated \<or> ?diff) (Some ?node') = (ms, u, t)"
      by (metis prod_cases3)
    with True Cons.prems have res: "ns' = ?node' # ms" "updated' = u" by (simp_all add: Let_def)
    have u: "u = ((updated \<or> ?diff) \<or> ms \<noteq> ns)" using rest by (rule Cons.IH)
    have "?diff \<longleftrightarrow> ?node' \<noteq> node"
    proof (cases ?diff)
      case True
      then have "n_text ?node' \<noteq> n_text node" using \<open>n_type node = ''text'' \<and> _\<close> by auto
      then show ?thesis using True by metis
    next
      case False
      then show ?thesis by simp
    qed
    with res u show ?thesis by auto
  next
    case False
    obtain ms u t where rest: "syncTextNodes link textContent ns updated targetNode = (ms, u, t)"
      by (metis prod_cases3)
    with False Cons.prems have res: "ns' = node # ms" "updated' = u" by auto
    have "u = (updated \<or> ms \<noteq> ns)" using rest by (rule Cons.IH)
    with res show ?thesis by simp
  qed
qed

text \<open>The shape of the result of \<open>syncNodes\<close>: the list of the text loop, or a new group before it.\<close>

lemma syncNodes_shape:
  assumes "syncNodes noteFile textContent groupId ns = (ns', updated, grouped, targetNodeId)"
  obtains ns1 u1 t1 where
    "syncTextNodes (targetLink noteFile) textContent ns False None = (ns1, u1, t1)"
    and "(\<not> grouped \<and> ns' = ns1 \<and> updated = u1)
         \<or> (grouped \<and> updated \<and> (\<exists>target. ns' = newGroup groupId noteFile target # ns1))"
proof -
  obtain ns1 u1 t1 where loop:
    "syncTextNodes (targetLink noteFile) textContent ns False None = (ns1, u1, t1)"
    by (metis prod_cases3)
  from assms have "(\<not> grouped \<and> ns' = ns1 \<and> updated = u1)
         \<or> (grouped \<and> updated \<and> (\<exists>target. ns' = newGroup groupId noteFile target # ns1))"
    unfolding syncNodes_def loop by (auto simp: Let_def split: option.splits if_splits)
  with loop show ?thesis by (rule that)
qed

lemma syncNodes_updated:
  assumes "syncNodes noteFile textContent groupId ns = (ns', updated, grouped, targetNodeId)"
  shows "updated = (ns' \<noteq> ns)" and "grouped \<longrightarrow> updated"
proof -
  from assms obtain ns1 u1 t1 where
    loop: "syncTextNodes (targetLink noteFile) textContent ns False None = (ns1, u1, t1)"
    and shape: "(\<not> grouped \<and> ns' = ns1 \<and> updated = u1)
         \<or> (grouped \<and> updated \<and> (\<exists>target. ns' = newGroup groupId noteFile target # ns1))"
    by (rule syncNodes_shape)
  have u1: "u1 = (ns1 \<noteq> ns)" using syncTextNodes_updated [OF loop] by simp
  have len: "length ns1 = length ns"
    using syncTextNodes_frame [OF loop] by (simp add: list_all2_lengthD)
  from shape show "updated = (ns' \<noteq> ns)"
  proof
    assume "\<not> grouped \<and> ns' = ns1 \<and> updated = u1"
    with u1 show ?thesis by simp
  next
    assume g: "grouped \<and> updated \<and> (\<exists>target. ns' = newGroup groupId noteFile target # ns1)"
    then have "length ns' = Suc (length ns)" using len by auto
    then have "ns' \<noteq> ns" by auto
    with g show ?thesis by simp
  qed
  from shape show "grouped \<longrightarrow> updated" by auto
qed

lemma syncNodes_frame:
  assumes "syncNodes noteFile textContent groupId ns = (ns', updated, grouped, targetNodeId)"
  shows "\<exists>front kept back. ns' = front @ kept @ back \<and> list_all2 sameButText ns kept"
proof -
  from assms obtain ns1 u1 t1 where
    loop: "syncTextNodes (targetLink noteFile) textContent ns False None = (ns1, u1, t1)"
    and shape: "(\<not> grouped \<and> ns' = ns1 \<and> updated = u1)
         \<or> (grouped \<and> updated \<and> (\<exists>target. ns' = newGroup groupId noteFile target # ns1))"
    by (rule syncNodes_shape)
  have kept: "list_all2 sameButText ns ns1" using loop by (rule syncTextNodes_frame)
  from shape show ?thesis
  proof
    assume "\<not> grouped \<and> ns' = ns1 \<and> updated = u1"
    then have "ns' = [] @ ns1 @ []" by simp
    with kept show ?thesis by blast
  next
    assume "grouped \<and> updated \<and> (\<exists>target. ns' = newGroup groupId noteFile target # ns1)"
    then obtain target where "ns' = [newGroup groupId noteFile target] @ ns1 @ []" by auto
    with kept show ?thesis by blast
  qed
qed

text \<open>What \<^verbatim>\<open>syncNodeInCanvas\<close> does to the world once its loops have run.\<close>

lemma syncNodeInCanvas_run:
  assumes "canvases w (path canvasFile) = Some (Json canvasData)"
    and "nodes canvasData = Some ns"
    and "extractNodeText h w noteFile = Inr textContent"
    and "syncNodes noteFile textContent (random w (drawn w)) ns = (ns', updated, grouped, targetNodeId)"
  shows "syncNodeInCanvas h canvasFile noteFile w =
         (Inr targetNodeId,
          if ns' \<noteq> ns
          then vaultModify (path canvasFile) (canvasData\<lparr>nodes := Some ns'\<rparr>)
                 (if grouped then w\<lparr>drawn := drawn w + 1\<rparr> else w)
          else w)"
  using assms syncNodes_updated [OF assms(4)] by (auto simp: syncNodeInCanvas_def)

lemma syncNodeInCanvas_world:
  "snd (syncNodeInCanvas h canvasFile noteFile w) = w
   \<or> (\<exists>canvasData ns textContent ns' updated grouped targetNodeId.
        canvases w (path canvasFile) = Some (Json canvasData) \<and> nodes canvasData = Some ns
        \<and> extractNodeText h w noteFile = Inr textContent
        \<and> syncNodes noteFile textContent (random w (drawn w)) ns = (ns', updated, grouped, targetNodeId)
        \<and> ns' \<noteq> ns
        \<and> snd (syncNodeInCanvas h canvasFile noteFile w)
            = vaultModify (path canvasFile) (canvasData\<lparr>nodes := Some ns'\<rparr>)
                (if grouped then w\<lparr>drawn := drawn w + 1\<rparr> else w))"
proof (cases "canvases w (path canvasFile)")
  case None
  then show ?thesis by (simp add: syncNodeInCanvas_def)
next
  case (Some content)
  show ?thesis
  proof (cases content)
    case SyntaxError
    with Some show ?thesis by (simp add: syncNodeInCanvas_def)
  next
    case (Json canvasData)
    show ?thesis
    proof (cases "nodes canvasData")
      case None
      with Some Json show ?thesis by (simp add: syncNodeInCanvas_def)
    next
      case ns: (Some ns)
      show ?thesis
      proof (cases "extractNodeText h w noteFile")
        case (Inl e)
        with Some Json ns show ?thesis by (simp add: syncNodeInCanvas_def)
      next
        case (Inr textContent)
        obtain ns' updated grouped targetNodeId where
          run: "syncNodes noteFile textContent (random w (drawn w)) ns
                = (ns', updated, grouped, targetNodeId)"
          by (metis prod_cases4)
        have doc: "canvases w (path canvasFile) = Some (Json canvasData)"
          using Some Json by simp
        from syncNodeInCanvas_run [OF doc ns Inr run] doc ns Inr run
        show ?thesis by (cases "ns' = ns") auto
      qed
    qed
  qed
qed

lemma syncTextNodes_main_updated:
  "syncTextNodes_main link textContent measured ns updated targetNodeId = (ns', updated', targetNodeId') \<Longrightarrow>
   updated' = (updated \<or> ns' \<noteq> ns)"
proof (induction ns arbitrary: updated targetNodeId ns' updated' targetNodeId')
  case Nil
  then show ?case by auto
next
  case (Cons node ns)
  show ?case
  proof (cases "n_type node = ''text'' \<and> n_text node \<noteq> None \<and> includesStr (the (n_text node)) link")
    case True
    let ?diff = "the (n_text node) \<noteq> textContent
                 \<or> \<bar>n_width node - fst measured\<bar> > 2 \<or> \<bar>n_height node - snd measured\<bar> > 2"
    let ?node' = "if ?diff
                  then node\<lparr>n_text := Some textContent, n_width := fst measured, n_height := snd measured\<rparr>
                  else node"
    obtain ms u t where rest:
      "syncTextNodes_main link textContent measured ns (updated \<or> ?diff) (Some (n_id node)) = (ms, u, t)"
      by (metis prod_cases3)
    with True Cons.prems have res: "ns' = ?node' # ms" "updated' = u"
      by (simp_all add: Let_def disj_assoc)
    have u: "u = ((updated \<or> ?diff) \<or> ms \<noteq> ns)" using rest by (rule Cons.IH)
    have "?diff \<longleftrightarrow> ?node' \<noteq> node"
    proof (cases ?diff)
      case diff: True
      then have fields: "n_text ?node' \<noteq> n_text node \<or> n_width ?node' \<noteq> n_width node
                 \<or> n_height ?node' \<noteq> n_height node"
        using True by auto
      have "?node' \<noteq> node"
      proof
        assume e: "?node' = node"
        have "n_text ?node' = n_text node" "n_width ?node' = n_width node"
          "n_height ?node' = n_height node"
          by (simp_all only: e)
        with fields show False by simp
      qed
      with diff show ?thesis by simp
    next
      case False
      then show ?thesis by simp
    qed
    with res u show ?thesis by auto
  next
    case False
    obtain ms u t where rest:
      "syncTextNodes_main link textContent measured ns updated targetNodeId = (ms, u, t)"
      by (metis prod_cases3)
    with False Cons.prems have res: "ns' = node # ms" "updated' = u" by auto
    have "u = (updated \<or> ms \<noteq> ns)" using rest by (rule Cons.IH)
    with res show ?thesis by simp
  qed
qed

lemma syncNodes_main_updated:
  assumes "syncNodes_main noteFile textContent measured ns = (ns', updated, targetNodeId)"
  shows "updated = (ns' \<noteq> ns)"
proof -
  obtain ns1 u1 t1 where loop:
    "syncTextNodes_main (targetLink noteFile) textContent measured ns False None = (ns1, u1, t1)"
    by (metis prod_cases3)
  with assms have "ns' = ns1" "updated = u1" by (simp_all add: syncNodes_main_def)
  with syncTextNodes_main_updated [OF loop] show ?thesis by simp
qed

lemma syncNodeInCanvas_main_run:
  assumes "canvases w (path canvasFile) = Some (Json canvasData)"
    and "nodes canvasData = Some ns"
    and "extractNodeText_main h w noteFile = Inr textContent"
    and "syncNodes_main noteFile textContent (measureText textContent) ns = (ns', updated, targetNodeId)"
  shows "syncNodeInCanvas_main measureText h canvasFile noteFile w =
         (Inr targetNodeId,
          if ns' \<noteq> ns then vaultModify (path canvasFile) (canvasData\<lparr>nodes := Some ns'\<rparr>) w else w)"
  using assms syncNodes_main_updated [OF assms(4)] by (auto simp: syncNodeInCanvas_main_def)

lemma syncNodeInCanvas_main_world:
  "snd (syncNodeInCanvas_main measureText h canvasFile noteFile w) = w
   \<or> (\<exists>canvasData ns textContent ns' updated targetNodeId.
        canvases w (path canvasFile) = Some (Json canvasData) \<and> nodes canvasData = Some ns
        \<and> extractNodeText_main h w noteFile = Inr textContent
        \<and> syncNodes_main noteFile textContent (measureText textContent) ns = (ns', updated, targetNodeId)
        \<and> ns' \<noteq> ns
        \<and> snd (syncNodeInCanvas_main measureText h canvasFile noteFile w)
            = vaultModify (path canvasFile) (canvasData\<lparr>nodes := Some ns'\<rparr>) w)"
proof (cases "canvases w (path canvasFile)")
  case None
  then show ?thesis by (simp add: syncNodeInCanvas_main_def)
next
  case (Some content)
  show ?thesis
  proof (cases content)
    case SyntaxError
    with Some show ?thesis by (simp add: syncNodeInCanvas_main_def)
  next
    case (Json canvasData)
    show ?thesis
    proof (cases "nodes canvasData")
      case None
      with Some Json show ?thesis by (simp add: syncNodeInCanvas_main_def)
    next
      case ns: (Some ns)
      show ?thesis
      proof (cases "extractNodeText_main h w noteFile")
        case (Inl e)
        with Some Json ns show ?thesis by (simp add: syncNodeInCanvas_main_def)
      next
        case (Inr textContent)
        obtain ns' updated targetNodeId where
          run: "syncNodes_main noteFile textContent (measureText textContent) ns
                = (ns', updated, targetNodeId)"
          by (metis prod_cases3)
        have doc: "canvases w (path canvasFile) = Some (Json canvasData)"
          using Some Json by simp
        from syncNodeInCanvas_main_run [where measureText = measureText, OF doc ns Inr run]
        have "snd (syncNodeInCanvas_main measureText h canvasFile noteFile w)
              = (if ns' \<noteq> ns then vaultModify (path canvasFile) (canvasData\<lparr>nodes := Some ns'\<rparr>) w
                 else w)"
          by simp
        with doc ns Inr run show ?thesis by (cases "ns' = ns") auto
      qed
    qed
  qed
qed

lemma vaultModify_effect:
  "canvases w p = Some (Json canvasData) \<Longrightarrow> nodes canvasData = Some ns \<Longrightarrow> ns' \<noteq> ns \<Longrightarrow>
   modified w0 = modified w \<Longrightarrow>
   modified (vaultModify p (canvasData\<lparr>nodes := Some ns'\<rparr>) w0) = modified w @ [p]
   \<and> canvases (vaultModify p (canvasData\<lparr>nodes := Some ns'\<rparr>) w0) p \<noteq> canvases w p
   \<and> nodesAt (vaultModify p (canvasData\<lparr>nodes := Some ns'\<rparr>) w0) p = ns'"
proof -
  assume a: "canvases w p = Some (Json canvasData)" "nodes canvasData = Some ns" "ns' \<noteq> ns"
    "modified w0 = modified w"
  have "nodes (canvasData\<lparr>nodes := Some ns'\<rparr>) \<noteq> nodes canvasData" using a(2,3) by simp
  then have "canvasData\<lparr>nodes := Some ns'\<rparr> \<noteq> canvasData" by metis
  with a show ?thesis by (simp add: vaultModify_def nodesAt_def)
qed

text \<open>
  C6. The flag \<^verbatim>\<open>updated\<close> that guards the write of \<^verbatim>\<open>syncNodeInCanvas\<close> is true exactly when
  the node list that the function holds after its loops differs from the node list it
  parsed (a card text replaced by a different regenerated text, a group synthesized; in
  the size-syncing variant, a text or a size replaced). So the function writes the
  document if and only if a node changed: when it writes, it writes once, to the canvas
  file, a document that differs from the one stored; when the node list has changed, it
  writes it; and when it does not write, the world, and so the canvas file, is unchanged.
\<close>

theorem syncNodeInCanvas_writes_iff_changed:
  "(syncNodes noteFile textContent groupId ns = (ns', updated, grouped, targetNodeId) \<longrightarrow>
      updated = (ns' \<noteq> ns))
   \<and> (modified (snd (syncNodeInCanvas h canvasFile noteFile w)) \<noteq> modified w \<longrightarrow>
        modified (snd (syncNodeInCanvas h canvasFile noteFile w)) = modified w @ [path canvasFile]
        \<and> canvases (snd (syncNodeInCanvas h canvasFile noteFile w)) (path canvasFile)
            \<noteq> canvases w (path canvasFile))
   \<and> (modified (snd (syncNodeInCanvas h canvasFile noteFile w)) = modified w \<longrightarrow>
        snd (syncNodeInCanvas h canvasFile noteFile w) = w)
   \<and> (canvases w (path canvasFile) = Some (Json canvasData) \<and> nodes canvasData = Some ns
        \<and> extractNodeText h w noteFile = Inr textContent
        \<and> syncNodes noteFile textContent (random w (drawn w)) ns = (ns', updated, grouped, targetNodeId)
        \<and> ns' \<noteq> ns \<longrightarrow>
        modified (snd (syncNodeInCanvas h canvasFile noteFile w)) = modified w @ [path canvasFile]
        \<and> nodesAt (snd (syncNodeInCanvas h canvasFile noteFile w)) (path canvasFile) = ns')
   \<and> (syncNodes_main noteFile textContent measured ns = (ms', updated, targetNodeId) \<longrightarrow>
        updated = (ms' \<noteq> ns))
   \<and> (modified (snd (syncNodeInCanvas_main measureText h canvasFile noteFile w)) \<noteq> modified w \<longrightarrow>
        modified (snd (syncNodeInCanvas_main measureText h canvasFile noteFile w))
          = modified w @ [path canvasFile]
        \<and> canvases (snd (syncNodeInCanvas_main measureText h canvasFile noteFile w)) (path canvasFile)
            \<noteq> canvases w (path canvasFile))
   \<and> (modified (snd (syncNodeInCanvas_main measureText h canvasFile noteFile w)) = modified w \<longrightarrow>
        snd (syncNodeInCanvas_main measureText h canvasFile noteFile w) = w)"
proof (intro conjI impI)
  assume "syncNodes noteFile textContent groupId ns = (ns', updated, grouped, targetNodeId)"
  then show "updated = (ns' \<noteq> ns)" by (rule syncNodes_updated)
next
  assume "syncNodes_main noteFile textContent measured ns = (ms', updated, targetNodeId)"
  then show "updated = (ms' \<noteq> ns)" by (rule syncNodes_main_updated)
next
  let ?w' = "snd (syncNodeInCanvas h canvasFile noteFile w)"
  assume wrote: "modified ?w' \<noteq> modified w"
  with syncNodeInCanvas_world [of h canvasFile noteFile w]
  obtain canvasData ns ns' grouped where
    "canvases w (path canvasFile) = Some (Json canvasData)" "nodes canvasData = Some ns" "ns' \<noteq> ns"
    "?w' = vaultModify (path canvasFile) (canvasData\<lparr>nodes := Some ns'\<rparr>)
             (if grouped then w\<lparr>drawn := drawn w + 1\<rparr> else w)"
    by auto
  then have "modified ?w' = modified w @ [path canvasFile]
             \<and> canvases ?w' (path canvasFile) \<noteq> canvases w (path canvasFile)"
    using vaultModify_effect [of w "path canvasFile" canvasData ns ns'
            "if grouped then w\<lparr>drawn := drawn w + 1\<rparr> else w"]
    by simp
  then show "modified ?w' = modified w @ [path canvasFile]"
    and "canvases ?w' (path canvasFile) \<noteq> canvases w (path canvasFile)" by simp_all
next
  let ?w' = "snd (syncNodeInCanvas h canvasFile noteFile w)"
  assume "modified ?w' = modified w"
  with syncNodeInCanvas_world [of h canvasFile noteFile w]
  show "?w' = w" by (auto simp: vaultModify_def)
next
  let ?w' = "snd (syncNodeInCanvas h canvasFile noteFile w)"
  assume a: "canvases w (path canvasFile) = Some (Json canvasData) \<and> nodes canvasData = Some ns
        \<and> extractNodeText h w noteFile = Inr textContent
        \<and> syncNodes noteFile textContent (random w (drawn w)) ns = (ns', updated, grouped, targetNodeId)
        \<and> ns' \<noteq> ns"
  then have "?w' = vaultModify (path canvasFile) (canvasData\<lparr>nodes := Some ns'\<rparr>)
                     (if grouped then w\<lparr>drawn := drawn w + 1\<rparr> else w)"
    using syncNodeInCanvas_run [of w canvasFile canvasData ns h noteFile textContent ns' updated
            grouped targetNodeId]
    by simp
  with a have "modified ?w' = modified w @ [path canvasFile] \<and> nodesAt ?w' (path canvasFile) = ns'"
    using vaultModify_effect [of w "path canvasFile" canvasData ns ns'
            "if grouped then w\<lparr>drawn := drawn w + 1\<rparr> else w"]
    by simp
  then show "modified ?w' = modified w @ [path canvasFile]"
    and "nodesAt ?w' (path canvasFile) = ns'" by simp_all
next
  let ?w' = "snd (syncNodeInCanvas_main measureText h canvasFile noteFile w)"
  assume wrote: "modified ?w' \<noteq> modified w"
  with syncNodeInCanvas_main_world [of measureText h canvasFile noteFile w]
  obtain canvasData ns ns' where
    "canvases w (path canvasFile) = Some (Json canvasData)" "nodes canvasData = Some ns" "ns' \<noteq> ns"
    "?w' = vaultModify (path canvasFile) (canvasData\<lparr>nodes := Some ns'\<rparr>) w"
    by auto
  then have "modified ?w' = modified w @ [path canvasFile]
             \<and> canvases ?w' (path canvasFile) \<noteq> canvases w (path canvasFile)"
    using vaultModify_effect [of w "path canvasFile" canvasData ns ns' w] by simp
  then show "modified ?w' = modified w @ [path canvasFile]"
    and "canvases ?w' (path canvasFile) \<noteq> canvases w (path canvasFile)" by simp_all
next
  let ?w' = "snd (syncNodeInCanvas_main measureText h canvasFile noteFile w)"
  assume "modified ?w' = modified w"
  with syncNodeInCanvas_main_world [of measureText h canvasFile noteFile w]
  show "?w' = w" by (auto simp: vaultModify_def)
qed

theorem syncNodeInCanvas_writes_iff_changed_witness:
  "syncNodes noteFile0 (''# [[note|note]]'' @ [CHR 0x0A, CHR 0x0A] @ ''Summary text'') ''card0'' staleCardNodes
     = (freshCardNodes, True, False, Some ''c1'')
   \<and> freshCardNodes \<noteq> staleCardNodes
   \<and> modified (snd (syncNodeInCanvas exampleHost boardFile noteFile0 (boardWorld (boardOf staleCardNodes))))
       = [''board.canvas'']
   \<and> nodesAt (snd (syncNodeInCanvas exampleHost boardFile noteFile0 (boardWorld (boardOf staleCardNodes))))
         ''board.canvas'' = freshCardNodes
   \<and> modified (snd (syncNodeInCanvas exampleHost boardFile noteFile0 (boardWorld (boardOf freshCardNodes))))
       = []
   \<and> snd (syncNodeInCanvas exampleHost boardFile noteFile0 (boardWorld (boardOf freshCardNodes)))
       = boardWorld (boardOf freshCardNodes)"
proof -
  let ?tc = "''# [[note|note]]'' @ [CHR 0x0A, CHR 0x0A] @ ''Summary text''"
  let ?w = "boardWorld (boardOf staleCardNodes)"
  let ?v = "boardWorld (boardOf freshCardNodes)"
  let ?data = "\<lparr>nodes = Some staleCardNodes, edges = Some [JObj [(''id'', JStr ''e1'')]],
                d_other = [(''version'', JNum 1)]\<rparr>"
  have doc: "canvases ?w (path boardFile) = Some (Json ?data)"
    by (simp add: boardWorld_def boardOf_def boardFile_def)
  have tc: "extractNodeText exampleHost ?w noteFile0 = Inr ?tc"
    by (simp add: extractNodeText_def frontmatterField_def exampleHost_def noteFile0_def
          cardText_def cleanName_note)
  have tcv: "extractNodeText exampleHost ?v noteFile0 = Inr ?tc"
    by (simp add: extractNodeText_def frontmatterField_def exampleHost_def noteFile0_def
          cardText_def cleanName_note)
  have stale: "syncNodes noteFile0 ?tc ''card0'' staleCardNodes = (freshCardNodes, True, False, Some ''c1'')"
    by (simp add: syncNodes_def staleCardNodes_def freshCardNodes_def plainNode_def targetLink_def
          noteFile0_def falsyStr_def Let_def)
  have fresh: "syncNodes noteFile0 ?tc ''card0'' freshCardNodes = (freshCardNodes, False, False, Some ''c1'')"
    by (simp add: syncNodes_def freshCardNodes_def plainNode_def targetLink_def
          noteFile0_def falsyStr_def Let_def)
  have differ: "freshCardNodes \<noteq> staleCardNodes"
    by (simp add: staleCardNodes_def freshCardNodes_def plainNode_def)
  have rnd: "random ?w (drawn ?w) = ''card0''" by (simp add: boardWorld_def)
  have quiet: "modified (snd (syncNodeInCanvas exampleHost boardFile noteFile0 ?v)) = modified ?v"
    using tcv fresh by (simp add: syncNodeInCanvas_def boardWorld_def boardOf_def boardFile_def)
  have empty: "modified ?v = []" by (simp add: boardWorld_def)
  have start: "modified ?w = []" by (simp add: boardWorld_def)
  have same: "modified (snd (syncNodeInCanvas exampleHost boardFile noteFile0 ?v)) = modified ?v"
    using quiet .
  have given: "canvases ?w (path boardFile) = Some (Json ?data) \<and> nodes ?data = Some staleCardNodes
        \<and> extractNodeText exampleHost ?w noteFile0 = Inr ?tc
        \<and> syncNodes noteFile0 ?tc (random ?w (drawn ?w)) staleCardNodes
            = (freshCardNodes, True, False, Some ''c1'')
        \<and> freshCardNodes \<noteq> staleCardNodes"
    using doc tc stale differ rnd by simp
  note written = syncNodeInCanvas_writes_iff_changed
    [where h = exampleHost and canvasFile = boardFile and noteFile = noteFile0 and w = ?w
       and canvasData = ?data and ns = staleCardNodes and ns' = freshCardNodes
       and textContent = ?tc and updated = True and grouped = False
       and targetNodeId = "Some ''c1''",
     THEN conjunct2, THEN conjunct2, THEN conjunct2, THEN conjunct1, THEN mp, OF given]
  note unwritten = syncNodeInCanvas_writes_iff_changed
    [where h = exampleHost and canvasFile = boardFile and noteFile = noteFile0 and w = ?v,
     THEN conjunct2, THEN conjunct2, THEN conjunct1, THEN mp, OF same]
  from written start
  have "modified (snd (syncNodeInCanvas exampleHost boardFile noteFile0 ?w)) = [''board.canvas'']"
    and "nodesAt (snd (syncNodeInCanvas exampleHost boardFile noteFile0 ?w)) ''board.canvas'' = freshCardNodes"
    by (simp_all add: boardFile_def)
  with unwritten stale differ quiet empty show ?thesis by simp
qed

section \<open>Idempotence of the create-or-sync flow\<close>

text \<open>A second pass of the text loop over its own result changes nothing and ends on the same target.\<close>

lemma syncTextNodes_again:
  "includesStr textContent link \<Longrightarrow>
   syncTextNodes link textContent ns updated targetNode = (ns1, updated1, targetNode1) \<Longrightarrow>
   syncTextNodes link textContent ns1 u targetNode = (ns1, u, targetNode1)"
proof (induction ns arbitrary: updated targetNode ns1 updated1 targetNode1 u)
  case Nil
  then show ?case by simp
next
  case (Cons node ns)
  show ?case
  proof (cases "n_type node = ''text'' \<and> n_text node \<noteq> None \<and> includesStr (the (n_text node)) link")
    case True
    let ?diff = "the (n_text node) \<noteq> textContent"
    let ?node' = "if ?diff then node\<lparr>n_text := Some textContent\<rparr> else node"
    obtain ms v t where rest:
      "syncTextNodes link textContent ns (updated \<or> ?diff) (Some ?node') = (ms, v, t)"
      by (metis prod_cases3)
    with True Cons.prems(2) have res: "ns1 = ?node' # ms" "targetNode1 = t" by (simp_all add: Let_def)
    have again: "syncTextNodes link textContent ms u (Some ?node') = (ms, u, t)"
      using Cons.prems(1) rest by (rule Cons.IH)
    have fresh: "n_type ?node' = ''text''" "n_text ?node' = Some textContent"
      using True by auto
    with Cons.prems(1) again show ?thesis by (simp add: res Let_def)
  next
    case False
    obtain ms v t where rest: "syncTextNodes link textContent ns updated targetNode = (ms, v, t)"
      by (metis prod_cases3)
    with False Cons.prems(2) have res: "ns1 = node # ms" "targetNode1 = t" by auto
    have "syncTextNodes link textContent ms u targetNode = (ms, u, t)"
      using Cons.prems(1) rest by (rule Cons.IH)
    with False show ?thesis by (auto simp: res)
  qed
qed

lemma syncNodes_unfold:
  assumes "syncTextNodes (targetLink noteFile) textContent ns False None = (ns1, u1, t1)"
  shows "syncNodes noteFile textContent groupId ns =
         (if syncTarget noteFile ns1 t1 \<noteq> None
             \<and> \<not> list_ex (\<lambda>n. n_type n = ''group'' \<and> n_label n = Some (basename noteFile)) ns1
          then (newGroup groupId noteFile (the (syncTarget noteFile ns1 t1)) # ns1, True, True,
                map_option n_id (syncTarget noteFile ns1 t1))
          else (ns1, u1, False, map_option n_id (syncTarget noteFile ns1 t1)))"
  unfolding syncNodes_def assms syncTarget_def
  by (simp add: Let_def split: option.splits)

lemma syncNodes_again:
  assumes link: "includesStr textContent (targetLink noteFile)"
    and run: "syncNodes noteFile textContent groupId ns = (ns', updated, grouped, targetNodeId)"
  shows "syncNodes noteFile textContent groupId' ns' = (ns', False, False, targetNodeId)"
proof -
  let ?isGroup = "\<lambda>n. n_type n = ''group'' \<and> n_label n = Some (basename noteFile)"
  obtain ns1 u1 t1 where loop:
    "syncTextNodes (targetLink noteFile) textContent ns False None = (ns1, u1, t1)"
    by (metis prod_cases3)
  have again: "syncTextNodes (targetLink noteFile) textContent ns1 False None = (ns1, False, t1)"
    using link loop by (rule syncTextNodes_again)
  note first = run [unfolded syncNodes_unfold [OF loop]]
  show ?thesis
  proof (cases "syncTarget noteFile ns1 t1 \<noteq> None \<and> \<not> list_ex ?isGroup ns1")
    case True
    with first have ns': "ns' = newGroup groupId noteFile (the (syncTarget noteFile ns1 t1)) # ns1"
      and tid: "targetNodeId = map_option n_id (syncTarget noteFile ns1 t1)"
      by simp_all
    have loop': "syncTextNodes (targetLink noteFile) textContent ns' False None = (ns', False, t1)"
      using again by (simp add: ns' newGroup_def)
    have target': "syncTarget noteFile ns' t1 = syncTarget noteFile ns1 t1"
      by (simp add: syncTarget_def ns' newGroup_def)
    have group': "list_ex ?isGroup ns'" by (simp add: ns' newGroup_def)
    show ?thesis
      unfolding syncNodes_unfold [OF loop'] target' using group' tid by simp
  next
    case False
    with first have ns': "ns' = ns1"
      and tid: "targetNodeId = map_option n_id (syncTarget noteFile ns1 t1)"
      by auto
    show ?thesis
      unfolding ns' syncNodes_unfold [OF again] using False tid by auto
  qed
qed

text \<open>Sync after sync: the second call returns what the first returned and writes nothing.\<close>

lemma syncNodeInCanvas_again:
  "syncNodeInCanvas h canvasFile noteFile (snd (syncNodeInCanvas h canvasFile noteFile w))
   = syncNodeInCanvas h canvasFile noteFile w"
proof -
  let ?w' = "snd (syncNodeInCanvas h canvasFile noteFile w)"
  from syncNodeInCanvas_world [of h canvasFile noteFile w]
  show ?thesis
  proof
    assume "?w' = w"
    then show ?thesis by simp
  next
    assume "\<exists>canvasData ns textContent ns' updated grouped targetNodeId.
        canvases w (path canvasFile) = Some (Json canvasData) \<and> nodes canvasData = Some ns
        \<and> extractNodeText h w noteFile = Inr textContent
        \<and> syncNodes noteFile textContent (random w (drawn w)) ns = (ns', updated, grouped, targetNodeId)
        \<and> ns' \<noteq> ns
        \<and> ?w' = vaultModify (path canvasFile) (canvasData\<lparr>nodes := Some ns'\<rparr>)
                (if grouped then w\<lparr>drawn := drawn w + 1\<rparr> else w)"
    then obtain canvasData ns textContent ns' updated grouped targetNodeId where
      doc: "canvases w (path canvasFile) = Some (Json canvasData)" and ns: "nodes canvasData = Some ns"
      and tc: "extractNodeText h w noteFile = Inr textContent"
      and run: "syncNodes noteFile textContent (random w (drawn w)) ns = (ns', updated, grouped, targetNodeId)"
      and changed: "ns' \<noteq> ns"
      and w': "?w' = vaultModify (path canvasFile) (canvasData\<lparr>nodes := Some ns'\<rparr>)
                (if grouped then w\<lparr>drawn := drawn w + 1\<rparr> else w)"
      by blast
    have first: "syncNodeInCanvas h canvasFile noteFile w = (Inr targetNodeId, ?w')"
      using syncNodeInCanvas_run [OF doc ns tc run] changed w' by simp
    have doc': "canvases ?w' (path canvasFile) = Some (Json (canvasData\<lparr>nodes := Some ns'\<rparr>))"
      by (simp add: w' vaultModify_def)
    have ns'': "nodes (canvasData\<lparr>nodes := Some ns'\<rparr>) = Some ns'" by simp
    have "markdown ?w' = markdown w" by (simp add: w' vaultModify_def)
    then have tc': "extractNodeText h ?w' noteFile = Inr textContent"
      using tc extractNodeText_markdown [of ?w' w] by simp
    have link: "includesStr textContent (targetLink noteFile)"
      using tc by (rule extractNodeText_has_link)
    have run': "syncNodes noteFile textContent (random ?w' (drawn ?w')) ns'
                = (ns', False, False, targetNodeId)"
      using link run by (rule syncNodes_again)
    have "syncNodeInCanvas h canvasFile noteFile ?w' = (Inr targetNodeId, ?w')"
      using syncNodeInCanvas_run [OF doc' ns'' tc' run'] by simp
    with first show ?thesis by simp
  qed
qed

text \<open>Sync keeps the cards of the note, their order and their identifiers.\<close>

lemma syncTextNodes_cards:
  "includesStr textContent (targetLink noteFile) \<Longrightarrow>
   syncTextNodes (targetLink noteFile) textContent ns updated targetNode = (ns1, updated1, targetNode1) \<Longrightarrow>
   list_all2 (\<lambda>n n'. n_id n' = n_id n \<and> isCardOf noteFile n' = isCardOf noteFile n) ns ns1"
proof (induction ns arbitrary: updated targetNode ns1 updated1 targetNode1)
  case Nil
  then show ?case by simp
next
  case (Cons node ns)
  show ?case
  proof (cases "n_type node = ''text'' \<and> n_text node \<noteq> None
                \<and> includesStr (the (n_text node)) (targetLink noteFile)")
    case True
    let ?diff = "the (n_text node) \<noteq> textContent"
    let ?node' = "if ?diff then node\<lparr>n_text := Some textContent\<rparr> else node"
    obtain ms v t where rest:
      "syncTextNodes (targetLink noteFile) textContent ns (updated \<or> ?diff) (Some ?node') = (ms, v, t)"
      by (metis prod_cases3)
    with True Cons.prems(2) have res: "ns1 = ?node' # ms" by (simp add: Let_def)
    have "n_id ?node' = n_id node" by simp
    moreover have "isCardOf noteFile ?node' = isCardOf noteFile node"
      using True Cons.prems(1) by (simp add: isCardOf_def)
    moreover have "list_all2 (\<lambda>n n'. n_id n' = n_id n \<and> isCardOf noteFile n' = isCardOf noteFile n) ns ms"
      using Cons.prems(1) rest by (rule Cons.IH)
    ultimately show ?thesis by (simp add: res)
  next
    case False
    obtain ms v t where rest:
      "syncTextNodes (targetLink noteFile) textContent ns updated targetNode = (ms, v, t)"
      by (metis prod_cases3)
    with False Cons.prems(2) have res: "ns1 = node # ms" by auto
    have "list_all2 (\<lambda>n n'. n_id n' = n_id n \<and> isCardOf noteFile n' = isCardOf noteFile n) ns ms"
      using Cons.prems(1) rest by (rule Cons.IH)
    then show ?thesis by (simp add: res)
  qed
qed

lemma find_same_id:
  "list_all2 (\<lambda>n n'. n_id n' = n_id n \<and> P n' = P n) xs ys \<Longrightarrow>
   map_option n_id (find P ys) = map_option n_id (find P xs)"
  by (induction xs ys rule: list_all2_induct) auto

lemma syncNodes_cards:
  assumes link: "includesStr textContent (targetLink noteFile)"
    and run: "syncNodes noteFile textContent groupId ns = (ns', updated, grouped, targetNodeId)"
  shows "map_option n_id (find (isCardOf noteFile) ns') = map_option n_id (find (isCardOf noteFile) ns)"
proof -
  from run obtain ns1 u1 t1 where
    loop: "syncTextNodes (targetLink noteFile) textContent ns False None = (ns1, u1, t1)"
    and shape: "(\<not> grouped \<and> ns' = ns1 \<and> updated = u1)
         \<or> (grouped \<and> updated \<and> (\<exists>target. ns' = newGroup groupId noteFile target # ns1))"
    by (rule syncNodes_shape)
  have "find (isCardOf noteFile) ns' = find (isCardOf noteFile) ns1"
    using shape by (auto simp: isCardOf_newGroup)
  moreover have "map_option n_id (find (isCardOf noteFile) ns1) = map_option n_id (find (isCardOf noteFile) ns)"
    using syncTextNodes_cards [OF link loop] by (rule find_same_id)
  ultimately show ?thesis by simp
qed

text \<open>Create after sync: the lookup finds the card it found before the sync.\<close>

lemma addToCanvas_after_sync:
  assumes doc: "canvases w (path canvasFile) = Some (Json canvasData)"
    and card: "find (isCardOf noteFile) (case nodes canvasData of None \<Rightarrow> [] | Some ns \<Rightarrow> ns) = Some node"
  shows "addToCanvas h canvasFile noteFile (snd (syncNodeInCanvas h canvasFile noteFile w))
         = (Inr (Some (n_id node)), snd (syncNodeInCanvas h canvasFile noteFile w))"
proof -
  let ?w' = "snd (syncNodeInCanvas h canvasFile noteFile w)"
  have here: "addToCanvas h canvasFile noteFile w = (Inr (Some (n_id node)), w)"
    using doc card by (simp add: addToCanvas_def)
  from syncNodeInCanvas_world [of h canvasFile noteFile w]
  show ?thesis
  proof
    assume "?w' = w"
    with here show ?thesis by simp
  next
    assume "\<exists>canvasData ns textContent ns' updated grouped targetNodeId.
        canvases w (path canvasFile) = Some (Json canvasData) \<and> nodes canvasData = Some ns
        \<and> extractNodeText h w noteFile = Inr textContent
        \<and> syncNodes noteFile textContent (random w (drawn w)) ns = (ns', updated, grouped, targetNodeId)
        \<and> ns' \<noteq> ns
        \<and> ?w' = vaultModify (path canvasFile) (canvasData\<lparr>nodes := Some ns'\<rparr>)
                (if grouped then w\<lparr>drawn := drawn w + 1\<rparr> else w)"
    then obtain d ns textContent ns' updated grouped targetNodeId where
      d: "canvases w (path canvasFile) = Some (Json d)" and ns: "nodes d = Some ns"
      and tc: "extractNodeText h w noteFile = Inr textContent"
      and run: "syncNodes noteFile textContent (random w (drawn w)) ns = (ns', updated, grouped, targetNodeId)"
      and w': "?w' = vaultModify (path canvasFile) (d\<lparr>nodes := Some ns'\<rparr>)
                (if grouped then w\<lparr>drawn := drawn w + 1\<rparr> else w)"
      by blast
    from d doc have same: "d = canvasData" by simp
    have link: "includesStr textContent (targetLink noteFile)"
      using tc by (rule extractNodeText_has_link)
    have "map_option n_id (find (isCardOf noteFile) ns') = map_option n_id (find (isCardOf noteFile) ns)"
      using link run by (rule syncNodes_cards)
    with card ns same obtain node' where
      found: "find (isCardOf noteFile) ns' = Some node'" and ident: "n_id node' = n_id node"
      by auto
    have "canvases ?w' (path canvasFile) = Some (Json (d\<lparr>nodes := Some ns'\<rparr>))"
      by (simp add: w' vaultModify_def)
    with found ident show ?thesis by (simp add: addToCanvas_def)
  qed
qed

text \<open>
  C1, as amended. When \<^verbatim>\<open>addToCanvas\<close> has succeeded once with the identifier \<open>i\<close>, a second
  call for the same canvas and note, on the world the first call left and with the
  note and its metadata unchanged, finds an existing node for the note at the lookup
  step (a file node with the path of the note, or a text node that contains the link
  prefix), returns the identifier \<open>i\<close> of that node, and leaves the world as it is: it
  writes nothing, and every canvas file is the same. In the create-or-sync flow: when
  the first call created the card, \<^verbatim>\<open>syncNodeInCanvas\<close> on the world it left returns \<open>i\<close> as
  well and writes nothing; when the first call only found a card, \<^verbatim>\<open>syncNodeInCanvas\<close> may
  write once (it regenerates an outdated card text and synthesizes a missing group),
  and after that sync the flow is at rest: a further \<^verbatim>\<open>syncNodeInCanvas\<close> returns what
  the first returned and leaves the world as it is, and a further \<^verbatim>\<open>addToCanvas\<close> returns
  \<open>i\<close> and leaves the world as it is.
\<close>

theorem addToCanvas_idempotent:
  assumes "addToCanvas h canvasFile noteFile w = (Inr (Some i), w1)"
  shows "addToCanvas h canvasFile noteFile w1 = (Inr (Some i), w1)
         \<and> (\<exists>node. find (isCardOf noteFile) (nodesAt w1 (path canvasFile)) = Some node \<and> n_id node = i)
         \<and> modified (snd (addToCanvas h canvasFile noteFile w1)) = modified w1
         \<and> canvases (snd (addToCanvas h canvasFile noteFile w1)) = canvases w1
         \<and> (w1 \<noteq> w \<longrightarrow> syncNodeInCanvas h canvasFile noteFile w1 = (Inr (Some i), w1))
         \<and> syncNodeInCanvas h canvasFile noteFile (snd (syncNodeInCanvas h canvasFile noteFile w1))
             = syncNodeInCanvas h canvasFile noteFile w1
         \<and> addToCanvas h canvasFile noteFile (snd (syncNodeInCanvas h canvasFile noteFile w1))
             = (Inr (Some i), snd (syncNodeInCanvas h canvasFile noteFile w1))"
proof -
  from assms obtain canvasData where doc: "canvases w (path canvasFile) = Some (Json canvasData)"
    by (auto simp: addToCanvas_def split: option.splits canvasContent.splits)
  let ?ns = "case nodes canvasData of None \<Rightarrow> [] | Some ns \<Rightarrow> ns"
  show ?thesis
  proof (cases "find (isCardOf noteFile) ?ns")
    case (Some node)
    with assms doc have same: "w1 = w" "i = n_id node"
      by (simp_all add: addToCanvas_def Let_def)
    have again: "addToCanvas h canvasFile noteFile w1 = (Inr (Some i), w1)"
      using assms same by simp
    have at: "nodesAt w1 (path canvasFile) = ?ns"
      using doc same by (simp add: nodesAt_def)
    have after: "addToCanvas h canvasFile noteFile (snd (syncNodeInCanvas h canvasFile noteFile w1))
                 = (Inr (Some i), snd (syncNodeInCanvas h canvasFile noteFile w1))"
      using addToCanvas_after_sync [OF doc Some, of h] same by simp
    with Some same again at syncNodeInCanvas_again [of h canvasFile noteFile w1] show ?thesis by simp
  next
    case None
    with assms doc obtain textContent where tc: "extractNodeText h w noteFile = Inr textContent"
      by (auto simp: addToCanvas_def Let_def split: sum.splits)
    let ?crd = "newCard (random w (drawn w)) textContent (placement ?ns)
                  (measureTextPrecisely h textContent)"
    let ?grp = "newGroup (random w (drawn w + 1)) noteFile ?crd"
    let ?ns' = "?ns @ [?grp, ?crd]"
    let ?data' = "canvasData\<lparr>nodes := Some ?ns'\<rparr>"
    from addToCanvas_creates [OF doc None tc] assms
    have i: "i = random w (drawn w)"
      and w1: "w1 = vaultModify (path canvasFile) ?data' (w\<lparr>drawn := drawn w + 2\<rparr>)"
      by (simp_all add: Let_def)
    have link: "includesStr textContent (targetLink noteFile)"
      using tc by (rule extractNodeText_has_link)
    have doc1: "canvases w1 (path canvasFile) = Some (Json ?data')"
      by (simp add: w1 vaultModify_def)
    have found: "find (isCardOf noteFile) ?ns' = Some ?crd"
      using None link by (simp add: find_append_None isCardOf_newGroup isCardOf_newCard)
    have ident: "n_id ?crd = i" by (simp add: i newCard_def)
    have again: "addToCanvas h canvasFile noteFile w1 = (Inr (Some i), w1)"
      using doc1 found ident by (simp add: addToCanvas_def Let_def)
    have at: "nodesAt w1 (path canvasFile) = ?ns'"
      using doc1 by (simp add: nodesAt_def)
    have tc1: "extractNodeText h w1 noteFile = Inr textContent"
      using tc extractNodeText_markdown [of w1 w] by (simp add: w1 vaultModify_def)
    have "syncNodes noteFile textContent (random w1 (drawn w1)) ?ns'
          = (?ns', False, False, Some (random w (drawn w)))"
      using None link refl by (rule syncNodes_after_create)
    then have sync: "syncNodeInCanvas h canvasFile noteFile w1 = (Inr (Some i), w1)"
      using doc1 tc1 i by (simp add: syncNodeInCanvas_def)
    have card1: "find (isCardOf noteFile) (case nodes ?data' of None \<Rightarrow> [] | Some ns \<Rightarrow> ns) = Some ?crd"
      using found by simp
    have after: "addToCanvas h canvasFile noteFile (snd (syncNodeInCanvas h canvasFile noteFile w1))
                 = (Inr (Some i), snd (syncNodeInCanvas h canvasFile noteFile w1))"
      using addToCanvas_after_sync [OF doc1 card1, of h] ident by simp
    from again found ident at sync after syncNodeInCanvas_again [of h canvasFile noteFile w1]
    show ?thesis by simp
  qed
qed

theorem addToCanvas_idempotent_witness:
  "fst (addToCanvas exampleHost boardFile noteFile0 (boardWorld (boardOf []))) = Inr (Some ''card0'')
   \<and> modified (snd (addToCanvas exampleHost boardFile noteFile0 (boardWorld (boardOf []))))
       = [''board.canvas'']
   \<and> addToCanvas exampleHost boardFile noteFile0
        (snd (addToCanvas exampleHost boardFile noteFile0 (boardWorld (boardOf []))))
      = (Inr (Some ''card0''), snd (addToCanvas exampleHost boardFile noteFile0 (boardWorld (boardOf []))))
   \<and> syncNodeInCanvas exampleHost boardFile noteFile0
        (snd (addToCanvas exampleHost boardFile noteFile0 (boardWorld (boardOf []))))
      = (Inr (Some ''card0''), snd (addToCanvas exampleHost boardFile noteFile0 (boardWorld (boardOf []))))
   \<and> addToCanvas exampleHost boardFile noteFile0 (boardWorld (boardOf fileCardNodes))
      = (Inr (Some ''f1''), boardWorld (boardOf fileCardNodes))
   \<and> syncNodeInCanvas exampleHost boardFile noteFile0
        (snd (syncNodeInCanvas exampleHost boardFile noteFile0 (boardWorld (boardOf fileCardNodes))))
      = syncNodeInCanvas exampleHost boardFile noteFile0 (boardWorld (boardOf fileCardNodes))
   \<and> addToCanvas exampleHost boardFile noteFile0
        (snd (syncNodeInCanvas exampleHost boardFile noteFile0 (boardWorld (boardOf fileCardNodes))))
      = (Inr (Some ''f1''),
         snd (syncNodeInCanvas exampleHost boardFile noteFile0 (boardWorld (boardOf fileCardNodes))))"
proof -
  let ?w = "boardWorld (boardOf [])"
  let ?w1 = "snd (addToCanvas exampleHost boardFile noteFile0 ?w)"
  let ?v = "boardWorld (boardOf fileCardNodes)"
  have r: "fst (addToCanvas exampleHost boardFile noteFile0 ?w) = Inr (Some ''card0'')"
    by (simp add: addToCanvas_def boardWorld_def boardOf_def boardFile_def extractNodeText_def
          frontmatterField_def exampleHost_def noteFile0_def Let_def)
  have m: "modified ?w1 = [''board.canvas'']"
    by (simp add: addToCanvas_def boardWorld_def boardOf_def boardFile_def extractNodeText_def
          frontmatterField_def exampleHost_def noteFile0_def Let_def vaultModify_def)
  have first: "addToCanvas exampleHost boardFile noteFile0 ?w = (Inr (Some ''card0''), ?w1)"
    using r by (simp add: prod_eq_iff)
  have changed: "?w1 \<noteq> ?w"
  proof
    assume "?w1 = ?w"
    then have "modified ?w1 = modified ?w" by simp
    with m show False by (simp add: boardWorld_def)
  qed
  have hit: "addToCanvas exampleHost boardFile noteFile0 ?v = (Inr (Some ''f1''), ?v)"
    by (simp add: addToCanvas_def boardWorld_def boardOf_def boardFile_def fileCardNodes_def
          plainNode_def isCardOf_def noteFile0_def)
  from addToCanvas_idempotent [OF first] addToCanvas_idempotent [OF hit] changed r m hit
  show ?thesis by simp
qed

text \<open>
  C1 as it is stated fails on the canvas that holds the note as a file node without a
  group: \<^verbatim>\<open>addToCanvas\<close> succeeds with the identifier of the file node and writes nothing,
  and \<^verbatim>\<open>syncNodeInCanvas\<close>, the other entry of the create-or-sync flow, then returns the
  same identifier but writes the canvas, with a new group in front of the file node.
\<close>

theorem addToCanvas_idempotent_counterexample:
  "addToCanvas exampleHost boardFile noteFile0 (boardWorld (boardOf fileCardNodes))
     = (Inr (Some ''f1''), boardWorld (boardOf fileCardNodes))
   \<and> modified (boardWorld (boardOf fileCardNodes)) = []
   \<and> fst (syncNodeInCanvas exampleHost boardFile noteFile0 (boardWorld (boardOf fileCardNodes)))
       = Inr (Some ''f1'')
   \<and> modified (snd (syncNodeInCanvas exampleHost boardFile noteFile0 (boardWorld (boardOf fileCardNodes))))
       = [''board.canvas'']
   \<and> map n_type (nodesAt (snd (syncNodeInCanvas exampleHost boardFile noteFile0
                                  (boardWorld (boardOf fileCardNodes)))) (path boardFile))
       = [''group'', ''file'']
   \<and> map n_type (nodesAt (boardWorld (boardOf fileCardNodes)) (path boardFile)) = [''file'']"
  by (simp add: addToCanvas_def syncNodeInCanvas_def syncNodes_def boardWorld_def boardOf_def
        boardFile_def fileCardNodes_def plainNode_def isCardOf_def targetLink_def noteFile0_def
        extractNodeText_def frontmatterField_def exampleHost_def cardText_def cleanName_note
        falsyStr_def newGroup_def nodesAt_def vaultModify_def Let_def)

section \<open>Properties of the group adjustment\<close>

lemma isCardLabelled_group: "n_type n = ''group'' \<Longrightarrow> \<not> isCardLabelled label n"
  by (simp add: isCardLabelled_def)

text \<open>
  The nodes the loop has passed differ from the parsed ones in groups only, and no group
  is the card of a label: the lookup of a card reads the same from both lists.
\<close>

lemma find_card_passed:
  "list_all2 (\<lambda>n n'. n' = n \<or> (n_type n = ''group'' \<and> n_type n' = ''group'')) xs xs' \<Longrightarrow>
   find (isCardLabelled label) (xs' @ ys) = find (isCardLabelled label) (xs @ ys)"
  by (induction xs xs' rule: list_all2_induct) (auto simp: isCardLabelled_group)

lemma adjustGroup_cong:
  "find (isCardLabelled (the (n_label grp))) allNodes' = find (isCardLabelled (the (n_label grp))) allNodes \<Longrightarrow>
   adjustGroup nonGroups allNodes' grp = adjustGroup nonGroups allNodes grp"
  by (simp add: adjustGroup_def)

lemma adjustGroup_type: "n_type (fst (adjustGroup nonGroups allNodes grp)) = n_type grp"
  by (simp add: adjustGroup_def split: option.splits)

lemma adjustGroup_frame: "sameButGeometry grp (fst (adjustGroup nonGroups allNodes grp))"
  by (simp add: adjustGroup_def sameButGeometry_def split: option.splits)

lemma adjustGroup_changed:
  "snd (adjustGroup nonGroups allNodes grp) = (fst (adjustGroup nonGroups allNodes grp) \<noteq> grp)"
proof (cases "find (isCardLabelled (the (n_label grp))) allNodes")
  case None
  then show ?thesis by (simp add: adjustGroup_def)
next
  case (Some targetNode)
  let ?differs = "n_x grp \<noteq> n_x targetNode \<or> n_y grp \<noteq> n_y targetNode \<or>
                  n_width grp \<noteq> n_width targetNode \<or> n_height grp \<noteq> n_height targetNode"
  let ?snapped = "grp\<lparr>n_x := n_x targetNode, n_y := n_y targetNode,
                      n_width := n_width targetNode, n_height := n_height targetNode\<rparr>"
  have "?differs \<Longrightarrow> ?snapped \<noteq> grp"
  proof
    assume d: ?differs and e: "?snapped = grp"
    have "n_x ?snapped = n_x grp" "n_y ?snapped = n_y grp"
      "n_width ?snapped = n_width grp" "n_height ?snapped = n_height grp"
      by (simp_all only: e)
    with d show False by simp
  qed
  with Some show ?thesis by (auto simp: adjustGroup_def)
qed

text \<open>The loop handles each group on its own: it maps the turn of a group over the node list.\<close>

lemma adjustLoop_eq:
  "list_all2 (\<lambda>n n'. n' = n \<or> (n_type n = ''group'' \<and> n_type n' = ''group'')) passed passed' \<Longrightarrow>
   adjustLoop nonGroups passed' rest updated
   = (passed' @ map (\<lambda>n. if n_type n = ''group''
                          then fst (adjustGroup nonGroups (passed @ rest) n) else n) rest,
      updated \<or> list_ex (\<lambda>n. n_type n = ''group'' \<and> snd (adjustGroup nonGroups (passed @ rest) n)) rest)"
proof (induction rest arbitrary: passed passed' updated)
  case Nil
  show ?case by simp
next
  case (Cons n rest)
  let ?R = "\<lambda>n n'. n' = n \<or> (n_type n = ''group'' \<and> n_type n' = ''group'')"
  show ?case
  proof (cases "n_type n = ''group''")
    case True
    have same: "adjustGroup nonGroups (passed' @ n # rest) n = adjustGroup nonGroups (passed @ n # rest) n"
      using Cons.prems by (intro adjustGroup_cong find_card_passed)
    let ?n' = "fst (adjustGroup nonGroups (passed @ n # rest) n)"
    let ?changed = "snd (adjustGroup nonGroups (passed @ n # rest) n)"
    have "?R n ?n'" using True by (simp add: adjustGroup_type)
    with Cons.prems have rel: "list_all2 ?R (passed @ [n]) (passed' @ [?n'])"
      by (simp add: list_all2_appendI)
    have "adjustLoop nonGroups passed' (n # rest) updated
          = adjustLoop nonGroups (passed' @ [?n']) rest (updated \<or> ?changed)"
      using True same by (simp add: case_prod_beta)
    also have "\<dots> = ((passed' @ [?n']) @ map (\<lambda>m. if n_type m = ''group''
                          then fst (adjustGroup nonGroups ((passed @ [n]) @ rest) m) else m) rest,
                   (updated \<or> ?changed)
                   \<or> list_ex (\<lambda>m. n_type m = ''group''
                                \<and> snd (adjustGroup nonGroups ((passed @ [n]) @ rest) m)) rest)"
      using rel by (rule Cons.IH)
    finally show ?thesis using True by simp
  next
    case False
    from Cons.prems have rel: "list_all2 ?R (passed @ [n]) (passed' @ [n])"
      by (simp add: list_all2_appendI)
    have "adjustLoop nonGroups passed' (n # rest) updated
          = adjustLoop nonGroups (passed' @ [n]) rest updated"
      using False by simp
    also have "\<dots> = ((passed' @ [n]) @ map (\<lambda>m. if n_type m = ''group''
                          then fst (adjustGroup nonGroups ((passed @ [n]) @ rest) m) else m) rest,
                   updated
                   \<or> list_ex (\<lambda>m. n_type m = ''group''
                                \<and> snd (adjustGroup nonGroups ((passed @ [n]) @ rest) m)) rest)"
      using rel by (rule Cons.IH)
    finally show ?thesis using False by simp
  qed
qed

lemma adjustNodes_eq:
  "adjustNodes ns
   = (map (\<lambda>n. if n_type n = ''group''
                then fst (adjustGroup (filter (\<lambda>n. n_type n \<noteq> ''group'') ns) ns n) else n) ns,
      list_ex (\<lambda>n. n_type n = ''group''
                    \<and> snd (adjustGroup (filter (\<lambda>n. n_type n \<noteq> ''group'') ns) ns n)) ns)"
  unfolding adjustNodes_def
  using adjustLoop_eq [of "[]" "[]" "filter (\<lambda>n. n_type n \<noteq> ''group'') ns" ns False] by simp

lemma map_changed: "(map f xs \<noteq> xs) = list_ex (\<lambda>x. f x \<noteq> x) xs"
  by (induction xs) auto

lemma adjustNodes_updated: "snd (adjustNodes ns) = (fst (adjustNodes ns) \<noteq> ns)"
proof -
  let ?ng = "filter (\<lambda>n. n_type n \<noteq> ''group'') ns"
  have "(\<lambda>n. n_type n = ''group'' \<and> snd (adjustGroup ?ng ns n))
        = (\<lambda>n. (if n_type n = ''group'' then fst (adjustGroup ?ng ns n) else n) \<noteq> n)"
    by (auto simp: adjustGroup_changed)
  then show ?thesis by (simp add: adjustNodes_eq map_changed)
qed

lemma adjustNodes_frame: "list_all2 sameButGeometry ns (fst (adjustNodes ns))"
proof -
  have "\<And>g n. sameButGeometry n (if n_type n = ''group'' then fst (adjustGroup g ns n) else n)"
    by (simp add: adjustGroup_frame) (simp add: sameButGeometry_def)
  then show ?thesis
    by (simp add: adjustNodes_eq list_all2_map2 list_all2_same)
qed

lemma adjustGroupsInCanvas_nodes:
  assumes "canvases w (path canvasFile) = Some (Json canvasData)" "nodes canvasData = Some ns"
  shows "canvases (adjustGroupsInCanvas canvasFile w) (path canvasFile)
         = Some (Json (canvasData\<lparr>nodes := Some (fst (adjustNodes ns))\<rparr>))"
proof (cases "snd (adjustNodes ns)")
  case True
  with assms show ?thesis
    by (simp add: adjustGroupsInCanvas_def vaultModify_def case_prod_beta)
next
  case False
  then have "fst (adjustNodes ns) = ns" by (simp add: adjustNodes_updated)
  moreover have "canvasData\<lparr>nodes := Some ns\<rparr> = canvasData" using assms(2) by simp
  ultimately show ?thesis using assms False
    by (simp add: adjustGroupsInCanvas_def case_prod_beta)
qed

text \<open>
  C5. Let a group of the canvas be given, with the non-group nodes whose centre lies in
  its rectangle counted. When more than one such node is counted, the group is after
  \<^verbatim>\<open>adjustGroupsInCanvas\<close> what it was before. When at most one is counted, the group has
  a label (a group whose label is missing or empty is passed over before any lookup),
  and the lookup finds a card for that label, the rectangle of the group is
  after the pass exactly that of the card, and every other field of the group is what
  it was: the four fields are written whenever one of them differs, and when none
  differs they are equal already. The node list keeps its length and order.
\<close>

theorem adjustGroupsInCanvas_geometry:
  assumes "canvases w (path canvasFile) = Some (Json canvasData)"
    and "nodes canvasData = Some ns"
    and "i < length ns" and "n_type (ns ! i) = ''group''"
  shows "length (nodesAt (adjustGroupsInCanvas canvasFile w) (path canvasFile)) = length ns
   \<and> (length (filter (centreInside (ns ! i)) (filter (\<lambda>n. n_type n \<noteq> ''group'') ns)) > 1 \<longrightarrow>
        nodesAt (adjustGroupsInCanvas canvasFile w) (path canvasFile) ! i = ns ! i)
   \<and> (length (filter (centreInside (ns ! i)) (filter (\<lambda>n. n_type n \<noteq> ''group'') ns)) \<le> 1
        \<and> n_label (ns ! i) = Some label \<and> label \<noteq> []
        \<and> find (isCardLabelled label) ns = Some target \<longrightarrow>
        nodesAt (adjustGroupsInCanvas canvasFile w) (path canvasFile) ! i
          = (ns ! i)\<lparr>n_x := n_x target, n_y := n_y target,
                      n_width := n_width target, n_height := n_height target\<rparr>)"
proof -
  let ?ng = "filter (\<lambda>n. n_type n \<noteq> ''group'') ns"
  let ?ns' = "nodesAt (adjustGroupsInCanvas canvasFile w) (path canvasFile)"
  have "?ns' = fst (adjustNodes ns)"
    using adjustGroupsInCanvas_nodes [OF assms(1,2)] by (simp add: nodesAt_def)
  then have all: "?ns' = map (\<lambda>n. if n_type n = ''group'' then fst (adjustGroup ?ng ns n) else n) ns"
    by (simp add: adjustNodes_eq)
  then have len: "length ?ns' = length ns" by simp
  from all assms(3,4) have at: "?ns' ! i = fst (adjustGroup ?ng ns (ns ! i))" by simp
  have many: "length (filter (centreInside (ns ! i)) ?ng) > 1 \<longrightarrow> ?ns' ! i = ns ! i"
    by (simp add: at adjustGroup_def)
  have one: "length (filter (centreInside (ns ! i)) ?ng) \<le> 1
        \<and> n_label (ns ! i) = Some label \<and> label \<noteq> []
        \<and> find (isCardLabelled label) ns = Some target \<longrightarrow>
        ?ns' ! i = (ns ! i)\<lparr>n_x := n_x target, n_y := n_y target,
                            n_width := n_width target, n_height := n_height target\<rparr>"
  proof
    assume a: "length (filter (centreInside (ns ! i)) ?ng) \<le> 1
        \<and> n_label (ns ! i) = Some label \<and> label \<noteq> []
        \<and> find (isCardLabelled label) ns = Some target"
    show "?ns' ! i = (ns ! i)\<lparr>n_x := n_x target, n_y := n_y target,
                            n_width := n_width target, n_height := n_height target\<rparr>"
    proof (cases "n_x (ns ! i) \<noteq> n_x target \<or> n_y (ns ! i) \<noteq> n_y target \<or>
                  n_width (ns ! i) \<noteq> n_width target \<or> n_height (ns ! i) \<noteq> n_height target")
      case True
      with a show ?thesis by (simp add: at adjustGroup_def falsyStr_def)
    next
      case False
      then have "(ns ! i)\<lparr>n_x := n_x target, n_y := n_y target,
                   n_width := n_width target, n_height := n_height target\<rparr> = ns ! i"
        by simp
      moreover from False a have "?ns' ! i = ns ! i"
        by (simp add: at adjustGroup_def falsyStr_def)
      ultimately show ?thesis by simp
    qed
  qed
  from len many one show ?thesis by blast
qed

theorem adjustGroupsInCanvas_geometry_witness:
  "n_type (looseGroupNodes ! 0) = ''group'' \<and> n_type (looseGroupNodes ! 2) = ''group''
   \<and> length (filter (centreInside (looseGroupNodes ! 0))
               (filter (\<lambda>n. n_type n \<noteq> ''group'') looseGroupNodes)) = 1
   \<and> length (filter (centreInside (looseGroupNodes ! 2))
               (filter (\<lambda>n. n_type n \<noteq> ''group'') looseGroupNodes)) = 2
   \<and> find (isCardLabelled ''note'') looseGroupNodes = Some (looseGroupNodes ! 1)
   \<and> nodesAt (adjustGroupsInCanvas boardFile (boardWorld (boardOf looseGroupNodes))) (path boardFile) ! 0
       = (plainNode ''g1'' ''group'' 0 0 300 300)
           \<lparr>n_label := Some ''note'', n_other := [(''color'', JStr ''2'')]\<rparr>
   \<and> nodesAt (adjustGroupsInCanvas boardFile (boardWorld (boardOf looseGroupNodes))) (path boardFile) ! 2
       = looseGroupNodes ! 2"
proof -
  let ?w = "boardWorld (boardOf looseGroupNodes)"
  let ?data = "\<lparr>nodes = Some looseGroupNodes, edges = Some [JObj [(''id'', JStr ''e1'')]],
                d_other = [(''version'', JNum 1)]\<rparr>"
  let ?ng = "filter (\<lambda>n. n_type n \<noteq> ''group'') looseGroupNodes"
  have doc: "canvases ?w (path boardFile) = Some (Json ?data)"
    by (simp add: boardWorld_def boardOf_def boardFile_def)
  have ns: "nodes ?data = Some looseGroupNodes" by simp
  have i0: "0 < length looseGroupNodes" and i2: "2 < length looseGroupNodes"
    by (simp_all add: looseGroupNodes_def)
  have t0: "n_type (looseGroupNodes ! 0) = ''group''" and t2: "n_type (looseGroupNodes ! 2) = ''group''"
    by (simp_all add: looseGroupNodes_def plainNode_def)
  have in0: "length (filter (centreInside (looseGroupNodes ! 0)) ?ng) = 1"
    by (simp add: looseGroupNodes_def plainNode_def centreInside_def)
  have in2: "length (filter (centreInside (looseGroupNodes ! 2)) ?ng) = 2"
    by (simp add: looseGroupNodes_def plainNode_def centreInside_def)
  have found: "find (isCardLabelled ''note'') looseGroupNodes = Some (looseGroupNodes ! 1)"
    by (simp add: looseGroupNodes_def plainNode_def isCardLabelled_def)
  have one: "length (filter (centreInside (looseGroupNodes ! 0)) ?ng) \<le> 1
        \<and> n_label (looseGroupNodes ! 0) = Some ''note'' \<and> ''note'' \<noteq> []
        \<and> find (isCardLabelled ''note'') looseGroupNodes = Some (looseGroupNodes ! 1)"
    using in0 found by (simp add: looseGroupNodes_def plainNode_def)
  have many: "length (filter (centreInside (looseGroupNodes ! 2)) ?ng) > 1"
    using in2 by simp
  note snapped = adjustGroupsInCanvas_geometry
    [OF doc ns i0 t0, where label = "''note''" and target = "looseGroupNodes ! 1",
     THEN conjunct2, THEN conjunct2, THEN mp, OF one]
  note kept = adjustGroupsInCanvas_geometry
    [OF doc ns i2 t2, THEN conjunct2, THEN conjunct1, THEN mp, OF many]
  have "(looseGroupNodes ! 0)\<lparr>n_x := n_x (looseGroupNodes ! 1), n_y := n_y (looseGroupNodes ! 1),
            n_width := n_width (looseGroupNodes ! 1), n_height := n_height (looseGroupNodes ! 1)\<rparr>
        = (plainNode ''g1'' ''group'' 0 0 300 300)
            \<lparr>n_label := Some ''note'', n_other := [(''color'', JStr ''2'')]\<rparr>"
    by (simp add: looseGroupNodes_def plainNode_def)
  with snapped kept t0 t2 in0 in2 found show ?thesis by simp
qed

section \<open>Round-trip preservation\<close>

lemma nodesKept_refl: "(\<And>n. rel n n) \<Longrightarrow> nodesKept rel old old"
proof (cases old)
  case None
  then show ?thesis by (simp add: nodesKept_def)
next
  case (Some ns)
  assume "\<And>n. rel n n"
  then have "list_all2 rel ns ns" by (simp add: list_all2_same)
  moreover have "ns = [] @ ns @ []" by simp
  ultimately show ?thesis unfolding nodesKept_def Some by (simp only: option.case) blast
qed

lemma sameButGeometry_refl: "sameButGeometry n n"
  by (simp add: sameButGeometry_def)

lemma syncNodeInCanvas_frame:
  assumes "canvases w (path canvasFile) = Some (Json canvasData)"
  shows "\<exists>d'. canvases (snd (syncNodeInCanvas h canvasFile noteFile w)) (path canvasFile) = Some (Json d')
           \<and> edges d' = edges canvasData \<and> d_other d' = d_other canvasData
           \<and> nodesKept sameButText (nodes canvasData) (nodes d')"
proof -
  let ?w' = "snd (syncNodeInCanvas h canvasFile noteFile w)"
  from syncNodeInCanvas_world [of h canvasFile noteFile w]
  show ?thesis
  proof
    assume "?w' = w"
    with assms nodesKept_refl [of sameButText "nodes canvasData"] show ?thesis
      by (simp add: sameButText_refl)
  next
    assume "\<exists>canvasData ns textContent ns' updated grouped targetNodeId.
        canvases w (path canvasFile) = Some (Json canvasData) \<and> nodes canvasData = Some ns
        \<and> extractNodeText h w noteFile = Inr textContent
        \<and> syncNodes noteFile textContent (random w (drawn w)) ns = (ns', updated, grouped, targetNodeId)
        \<and> ns' \<noteq> ns
        \<and> ?w' = vaultModify (path canvasFile) (canvasData\<lparr>nodes := Some ns'\<rparr>)
                (if grouped then w\<lparr>drawn := drawn w + 1\<rparr> else w)"
    then obtain d ns textContent ns' updated grouped targetNodeId where
      d: "canvases w (path canvasFile) = Some (Json d)" and ns: "nodes d = Some ns"
      and run: "syncNodes noteFile textContent (random w (drawn w)) ns = (ns', updated, grouped, targetNodeId)"
      and w': "?w' = vaultModify (path canvasFile) (d\<lparr>nodes := Some ns'\<rparr>)
                (if grouped then w\<lparr>drawn := drawn w + 1\<rparr> else w)"
      by blast
    from d assms have [simp]: "d = canvasData" by simp
    have stored: "canvases ?w' (path canvasFile) = Some (Json (canvasData\<lparr>nodes := Some ns'\<rparr>))"
      by (simp add: w' vaultModify_def)
    have "nodesKept sameButText (nodes canvasData) (Some ns')"
      using syncNodes_frame [OF run] ns by (simp add: nodesKept_def)
    with stored show ?thesis by simp
  qed
qed

lemma addToCanvas_frame:
  assumes "canvases w (path canvasFile) = Some (Json canvasData)"
  shows "\<exists>d'. canvases (snd (addToCanvas h canvasFile noteFile w)) (path canvasFile) = Some (Json d')
           \<and> edges d' = edges canvasData \<and> d_other d' = d_other canvasData
           \<and> nodesKept (=) (nodes canvasData) (nodes d')"
proof -
  let ?ns = "case nodes canvasData of None \<Rightarrow> [] | Some ns \<Rightarrow> ns"
  let ?w' = "snd (addToCanvas h canvasFile noteFile w)"
  have keep: "nodesKept (=) (nodes canvasData) (nodes canvasData)"
    by (rule nodesKept_refl) simp
  show ?thesis
  proof (cases "find (isCardOf noteFile) ?ns")
    case (Some node)
    with assms have "?w' = w" by (simp add: addToCanvas_def)
    with assms keep show ?thesis by simp
  next
    case None
    show ?thesis
    proof (cases "extractNodeText h w noteFile")
      case (Inl e)
      with assms None have "?w' = w" by (simp add: addToCanvas_def)
      with assms keep show ?thesis by simp
    next
      case (Inr textContent)
      let ?crd = "newCard (random w (drawn w)) textContent (placement ?ns)
                    (measureTextPrecisely h textContent)"
      let ?added = "[newGroup (random w (drawn w + 1)) noteFile ?crd, ?crd]"
      have "?w' = vaultModify (path canvasFile) (canvasData\<lparr>nodes := Some (?ns @ ?added)\<rparr>)
                    (w\<lparr>drawn := drawn w + 2\<rparr>)"
        using addToCanvas_creates [OF assms None Inr] by (simp add: Let_def)
      then have stored: "canvases ?w' (path canvasFile)
                         = Some (Json (canvasData\<lparr>nodes := Some (?ns @ ?added)\<rparr>))"
        by (simp add: vaultModify_def)
      have "?ns @ ?added = [] @ ?ns @ ?added" by simp
      moreover have "list_all2 (=) ?ns ?ns" by (simp add: list_all2_same)
      ultimately have "nodesKept (=) (nodes canvasData) (Some (?ns @ ?added))"
        unfolding nodesKept_def by (simp only: option.case) blast
      with stored show ?thesis by simp
    qed
  qed
qed

lemma adjustGroupsInCanvas_frame:
  assumes "canvases w (path canvasFile) = Some (Json canvasData)"
  shows "\<exists>d'. canvases (adjustGroupsInCanvas canvasFile w) (path canvasFile) = Some (Json d')
           \<and> edges d' = edges canvasData \<and> d_other d' = d_other canvasData
           \<and> nodesKept sameButGeometry (nodes canvasData) (nodes d')"
proof (cases "nodes canvasData")
  case None
  with assms have "adjustGroupsInCanvas canvasFile w = w" by (simp add: adjustGroupsInCanvas_def)
  with assms nodesKept_refl [of sameButGeometry "nodes canvasData"] show ?thesis
    by (simp add: sameButGeometry_refl)
next
  case (Some ns)
  have "fst (adjustNodes ns) = [] @ fst (adjustNodes ns) @ []" by simp
  with adjustNodes_frame [of ns]
  have "nodesKept sameButGeometry (Some ns) (Some (fst (adjustNodes ns)))"
    unfolding nodesKept_def by (simp only: option.case) blast
  with adjustGroupsInCanvas_nodes [OF assms Some] Some show ?thesis by simp
qed

text \<open>
  C7. Let the canvas file parse to a document. After \<^verbatim>\<open>syncNodeInCanvas\<close>, after
  \<^verbatim>\<open>addToCanvas\<close> and after \<^verbatim>\<open>adjustGroupsInCanvas\<close>, the canvas file holds a document with
  the same edges and the same other top-level fields, and every node of the parsed
  document is still in it, in the same order, with all its fields (the identifier,
  the type, the file, the label and the fields the plugin does not know among them)
  but those the operation sets: the text for sync, nothing for create, the rectangle
  for the group adjustment. The only other nodes are those the operation has added.
\<close>

theorem canvas_roundtrip_preserves:
  assumes "canvases w (path canvasFile) = Some (Json canvasData)"
  shows "(\<exists>d'. canvases (snd (syncNodeInCanvas h canvasFile noteFile w)) (path canvasFile) = Some (Json d')
           \<and> edges d' = edges canvasData \<and> d_other d' = d_other canvasData
           \<and> nodesKept sameButText (nodes canvasData) (nodes d'))
       \<and> (\<exists>d'. canvases (snd (addToCanvas h canvasFile noteFile w)) (path canvasFile) = Some (Json d')
           \<and> edges d' = edges canvasData \<and> d_other d' = d_other canvasData
           \<and> nodesKept (=) (nodes canvasData) (nodes d'))
       \<and> (\<exists>d'. canvases (adjustGroupsInCanvas canvasFile w) (path canvasFile) = Some (Json d')
           \<and> edges d' = edges canvasData \<and> d_other d' = d_other canvasData
           \<and> nodesKept sameButGeometry (nodes canvasData) (nodes d'))"
  using syncNodeInCanvas_frame [OF assms] addToCanvas_frame [OF assms]
    adjustGroupsInCanvas_frame [OF assms]
  by (intro conjI)

theorem canvas_roundtrip_preserves_witness:
  "canvases (boardWorld (boardOf staleCardNodes)) (path boardFile) = Some (boardOf staleCardNodes)
   \<and> map n_other staleCardNodes = [[], [(''color'', JStr ''4'')]]
   \<and> canvases (snd (syncNodeInCanvas exampleHost boardFile noteFile0 (boardWorld (boardOf staleCardNodes))))
        (path boardFile) = Some (boardOf freshCardNodes)
   \<and> map n_other freshCardNodes = [[], [(''color'', JStr ''4'')]]
   \<and> canvases (snd (addToCanvas exampleHost boardFile noteFile0 (boardWorld (boardOf staleCardNodes))))
        (path boardFile) = Some (boardOf staleCardNodes)
   \<and> map n_other (nodesAt (adjustGroupsInCanvas boardFile (boardWorld (boardOf looseGroupNodes)))
                     (path boardFile)) = map n_other looseGroupNodes"
proof -
  let ?w = "boardWorld (boardOf staleCardNodes)"
  let ?data = "\<lparr>nodes = Some staleCardNodes, edges = Some [JObj [(''id'', JStr ''e1'')]],
                d_other = [(''version'', JNum 1)]\<rparr>"
  have doc: "canvases ?w (path boardFile) = Some (Json ?data)"
    by (simp add: boardWorld_def boardOf_def boardFile_def)
  note kept = canvas_roundtrip_preserves [OF doc, of exampleHost noteFile0]
  have tc: "extractNodeText exampleHost ?w noteFile0
            = Inr (''# [[note|note]]'' @ [CHR 0x0A, CHR 0x0A] @ ''Summary text'')"
    by (simp add: extractNodeText_def frontmatterField_def exampleHost_def noteFile0_def
          cardText_def cleanName_note)
  have synced: "canvases (snd (syncNodeInCanvas exampleHost boardFile noteFile0 ?w)) (path boardFile)
                = Some (boardOf freshCardNodes)"
    using tc by (simp add: syncNodeInCanvas_def syncNodes_def boardWorld_def boardOf_def boardFile_def
          staleCardNodes_def freshCardNodes_def plainNode_def targetLink_def noteFile0_def
          falsyStr_def Let_def vaultModify_def)
  have added: "canvases (snd (addToCanvas exampleHost boardFile noteFile0 ?w)) (path boardFile)
               = Some (boardOf staleCardNodes)"
    by (simp add: addToCanvas_def boardWorld_def boardOf_def boardFile_def staleCardNodes_def
          plainNode_def isCardOf_def targetLink_def noteFile0_def)
  have adjusted: "map n_other (nodesAt (adjustGroupsInCanvas boardFile (boardWorld (boardOf looseGroupNodes)))
                     (path boardFile)) = map n_other looseGroupNodes"
    by (simp add: adjustGroupsInCanvas_def adjustNodes_def adjustGroup_def boardWorld_def boardOf_def
          boardFile_def looseGroupNodes_def plainNode_def centreInside_def isCardLabelled_def
          falsyStr_def nodesAt_def vaultModify_def)
  from kept doc synced added adjusted show ?thesis
    by (simp add: boardOf_def staleCardNodes_def freshCardNodes_def plainNode_def)
qed

end
